theory Spec2Isabelle
  imports Main "HOL-Library.Word"
begin

unbundle bit_operations_syntax

section \<open>Machine types of pep.h\<close>

type_synonym u8 = "8 word"
type_synonym u16 = "16 word"
type_synonym u32 = "32 word"
type_synonym u64 = "64 word"

text \<open>The enum \<open>pep_format\<close>, in declaration order (values 0 to 3).\<close>

datatype pep_format = pep_rgba | pep_bgra | pep_abgr | pep_argb

text \<open>The integer value the C compiler gives each enumerator.\<close>

fun format_val :: "pep_format \<Rightarrow> nat" where
  "format_val pep_rgba = 0"
| "format_val pep_bgra = 1"
| "format_val pep_abgr = 2"
| "format_val pep_argb = 3"

text \<open>The enum \<open>pep_channel_bits\<close> (values 0 to 3).\<close>

datatype pep_channel_bits = pep_1bit | pep_2bit | pep_4bit | pep_8bit

fun channel_bits_val :: "pep_channel_bits \<Rightarrow> nat" where
  "channel_bits_val pep_1bit = 0"
| "channel_bits_val pep_2bit = 1"
| "channel_bits_val pep_4bit = 2"
| "channel_bits_val pep_8bit = 3"

section \<open>Channel reordering\<close>

text \<open>
  \<open>_pep_reformat\<close>: the five branches of the source in their order. The test
  \<open>(in_format ^ out_format) == 2\<close> is on the enumerators' integer values.
\<close>

definition pep_reformat :: "u32 \<Rightarrow> pep_format \<Rightarrow> pep_format \<Rightarrow> u32" where
  "pep_reformat in_color in_format out_format =
    (if in_format = out_format then in_color
     else if format_val in_format \<le> 1 \<and> format_val out_format \<le> 1 then
       (in_color AND 0xff00ff00) OR push_bit 16 (in_color AND 0x000000ff)
         OR drop_bit 16 (in_color AND 0x00ff0000)
     else if format_val in_format \<ge> 2 \<and> format_val out_format \<ge> 2 then
       (in_color AND 0x00ff00ff) OR push_bit 16 (in_color AND 0x0000ff00)
         OR drop_bit 16 (in_color AND 0xff000000)
     else if (format_val in_format) XOR (format_val out_format) = 2 then
       push_bit 24 (in_color AND 0x000000ff) OR push_bit 8 (in_color AND 0x0000ff00)
         OR drop_bit 8 (in_color AND 0x00ff0000) OR drop_bit 24 (in_color AND 0xff000000)
     else if format_val in_format < format_val out_format then
       drop_bit 24 (in_color AND 0xff000000) OR push_bit 8 (in_color AND 0x00ffffff)
     else
       push_bit 24 (in_color AND 0x000000ff) OR drop_bit 8 (in_color AND 0xffffff00))"

section \<open>Arithmetic coder\<close>

text \<open>
  \<open>PEP_CODE_BITS = 24\<close>, \<open>PEP_CODE_BITS_INV = 32 - 24 = 8\<close>,
  \<open>PEP_FREQ_MAX_BITS = 14\<close>.
\<close>

definition PEP_PROB_MAX_VALUE :: u32 where
  "PEP_PROB_MAX_VALUE = push_bit 14 1"

definition PEP_CODE_MAX_VALUE :: u32 where
  "PEP_CODE_MAX_VALUE = push_bit 24 1 - 1"

text \<open>
  \<open>_pep_ac_encode\<close>. The output cursor \<open>data_ref\<close> is modelled by the bytes written
  through it so far, oldest first: \<open>*ac->data_ref++ = byte\<close> appends one byte.
\<close>

record pep_ac_encode =
  enc_data_ref :: "u8 list"
  enc_low :: u32
  enc_range :: u32

text \<open>
  \<open>_pep_ac_decode\<close>. The pair \<open>data_ref\<close>, \<open>end_of_data\<close> is modelled by the bytes
  still unread between the two pointers; \<open>data_ref != end_of_data\<close> is
  \<open>dec_data_ref ac \<noteq> []\<close>.
\<close>

record pep_ac_decode =
  dec_data_ref :: "u8 list"
  dec_low :: u32
  dec_range :: u32
  dec_code :: u32

record pep_prob =
  prob_high :: u32
  prob_low :: u32
  prob_scale :: u32

text \<open>
  \<open>_pep_arith_encode\<close>. The unsigned division traps in C when \<open>prob.scale\<close> is 0;
  \<open>None\<close> stands for "no defined result" throughout this development.
\<close>

definition pep_arith_encode :: "pep_ac_encode \<Rightarrow> pep_prob \<Rightarrow> pep_ac_encode option" where
  "pep_arith_encode ac prob =
    (if prob_scale prob = 0 then None
     else
       let r = enc_range ac div prob_scale prob;
           l = enc_low ac + prob_low prob * r
       in Some (ac\<lparr>enc_low := l, enc_range := r * (prob_high prob - prob_low prob)\<rparr>))"

text \<open>
  \<open>_pep_arith_encode_normalize\<close>: the \<open>while( 1 )\<close> loop. It leaves only through the
  \<open>break\<close>; a run that never reaches it has the value \<open>None\<close>.
\<close>

partial_function (option) pep_arith_encode_normalize :: "pep_ac_encode \<Rightarrow> pep_ac_encode option" where
  "pep_arith_encode_normalize ac =
    (if (enc_low ac XOR (enc_low ac + enc_range ac)) \<ge> PEP_CODE_MAX_VALUE
        \<and> enc_range ac \<ge> PEP_PROB_MAX_VALUE
     then Some ac
     else
       let r = (if (enc_low ac XOR (enc_low ac + enc_range ac)) \<ge> PEP_CODE_MAX_VALUE
                then PEP_PROB_MAX_VALUE - (enc_low ac AND (PEP_PROB_MAX_VALUE - 1))
                else enc_range ac);
           byte = (ucast (drop_bit 24 (enc_low ac)) :: u8)
       in pep_arith_encode_normalize
            \<lparr>enc_data_ref = enc_data_ref ac @ [byte],
             enc_low = push_bit 8 (enc_low ac),
             enc_range = push_bit 8 r\<rparr>)"

text \<open>
  \<open>_pep_arith_decode_curr_freq\<close>. Both divisions trap on a zero divisor: \<open>scale = 0\<close>,
  or \<open>range < scale\<close>, which makes the new range 0.
\<close>

definition pep_arith_decode_curr_freq :: "pep_ac_decode \<Rightarrow> u32 \<Rightarrow> (u32 \<times> pep_ac_decode) option" where
  "pep_arith_decode_curr_freq ac scale =
    (if scale = 0 then None
     else
       let r = dec_range ac div scale
       in if r = 0 then None
          else Some ((dec_code ac - dec_low ac) div r, ac\<lparr>dec_range := r\<rparr>))"

text \<open>The renormalization loop of \<open>_pep_arith_decode_update\<close>.\<close>

partial_function (option) pep_arith_decode_normalize :: "pep_ac_decode \<Rightarrow> pep_ac_decode option" where
  "pep_arith_decode_normalize ac =
    (if (dec_low ac XOR (dec_low ac + dec_range ac)) \<ge> PEP_CODE_MAX_VALUE
        \<and> \<not> dec_range ac < PEP_PROB_MAX_VALUE
     then Some ac
     else
       let r = (if (dec_low ac XOR (dec_low ac + dec_range ac)) \<ge> PEP_CODE_MAX_VALUE
                then PEP_PROB_MAX_VALUE - (dec_low ac AND (PEP_PROB_MAX_VALUE - 1))
                else dec_range ac);
           in_byte = (case dec_data_ref ac of [] \<Rightarrow> (0 :: u8) | b # _ \<Rightarrow> b);
           rest = (case dec_data_ref ac of [] \<Rightarrow> [] | _ # bs \<Rightarrow> bs)
       in pep_arith_decode_normalize
            \<lparr>dec_data_ref = rest,
             dec_low = push_bit 8 (dec_low ac),
             dec_range = push_bit 8 r,
             dec_code = push_bit 8 (dec_code ac) OR ucast in_byte\<rparr>)"

text \<open>\<open>_pep_arith_decode_update\<close>: narrow the interval, then renormalize.\<close>

definition pep_arith_decode_update :: "pep_ac_decode \<Rightarrow> pep_prob \<Rightarrow> pep_ac_decode option" where
  "pep_arith_decode_update ac prob =
    pep_arith_decode_normalize
      (ac\<lparr>dec_low := dec_low ac + dec_range ac * prob_low prob,
          dec_range := dec_range ac * (prob_high prob - prob_low prob)\<rparr>)"

declare pep_arith_encode_normalize.simps [code]
declare pep_arith_decode_normalize.simps [code]

section \<open>Frequency model\<close>

text \<open>
  \<open>PEP_FREQ_N = 257\<close>, \<open>PEP_FREQ_END = PEP_CONTEXTS_MAX = 256\<close>,
  \<open>PEP_FREQ_MAX = PEP_FREQ_END >> 1 = 128\<close>.
\<close>

definition PEP_FREQ_N :: nat where "PEP_FREQ_N = 257"
definition PEP_FREQ_END :: nat where "PEP_FREQ_END = 256"
definition PEP_CONTEXTS_MAX :: nat where "PEP_CONTEXTS_MAX = 256"
definition PEP_FREQ_MAX :: u16 where "PEP_FREQ_MAX = drop_bit 1 256"

text \<open>
  \<open>_pep_context\<close>: the array \<open>freq[ PEP_FREQ_N ]\<close> is a list of 257 entries. Symbols
  index it; they are at most 256 everywhere in the source, and are kept as \<open>nat\<close>.
\<close>

record pep_context =
  ctx_freq :: "u16 list"
  ctx_sum :: u32

text \<open>\<open>_pep_get_prob_from_ctx\<close>: the running sum is a \<open>uint32_t\<close>.\<close>

definition pep_get_prob_from_ctx :: "pep_context \<Rightarrow> nat \<Rightarrow> pep_prob" where
  "pep_get_prob_from_ctx ctx symbol =
    (let lo = fold (\<lambda>f acc. acc + (ucast f :: u32)) (take symbol (ctx_freq ctx)) 0
     in \<lparr>prob_high = lo + ucast (ctx_freq ctx ! symbol), prob_low = lo, prob_scale = ctx_sum ctx\<rparr>)"

text \<open>
  The search loop of \<open>_pep_get_sym_from_freq\<close>, from slot \<open>s\<close> with the running sum
  \<open>freq\<close>, over the slots not yet visited. It yields the slot where the loop breaks
  and the running sum there; \<open>None\<close> when no slot up to \<open>PEP_FREQ_END\<close> breaks it.
\<close>

fun sym_search :: "u16 list \<Rightarrow> nat \<Rightarrow> u32 \<Rightarrow> u32 \<Rightarrow> (nat \<times> u32) option" where
  "sym_search [] s freq target_freq = None"
| "sym_search (f # fs) s freq target_freq =
    (let freq' = freq + ucast f
     in if freq' > target_freq then Some (s, freq')
        else sym_search fs (Suc s) freq' target_freq)"

text \<open>
  \<open>_pep_get_sym_from_freq\<close>. When the loop runs to its end, \<open>s\<close> is 257 and the source
  reads \<open>ctx->freq[ 257 ]\<close>, outside the array: no defined result.
\<close>

definition pep_get_sym_from_freq :: "pep_context \<Rightarrow> u32 \<Rightarrow> (pep_prob \<times> nat) option" where
  "pep_get_sym_from_freq ctx target_freq =
    (case sym_search (ctx_freq ctx) 0 0 target_freq of
       None \<Rightarrow> None
     | Some (s, freq) \<Rightarrow>
         Some (\<lparr>prob_high = freq, prob_low = freq - ucast (ctx_freq ctx ! s),
                prob_scale = ctx_sum ctx\<rparr>, s))"

text \<open>
  The rescaling loop of \<open>PEP_UPDATE\<close>: a zero slot is skipped, any other becomes
  \<open>( _f + 1 ) >> 1\<close>, computed in \<open>int\<close> and stored as \<open>uint16_t\<close>.
\<close>

definition rescale_freq :: "u16 \<Rightarrow> u16" where
  "rescale_freq f = (if f = 0 then f else ucast (drop_bit 1 ((ucast f :: u32) + 1)))"

definition rescale :: "pep_context \<Rightarrow> pep_context" where
  "rescale ctx =
    (let fs = map rescale_freq (ctx_freq ctx)
     in \<lparr>ctx_freq = fs, ctx_sum = fold (\<lambda>f acc. acc + (ucast f :: u32)) fs 0\<rparr>)"

text \<open>
  The threshold test of \<open>PEP_UPDATE\<close>, on the context after the two increments.
\<close>

definition needs_rescale :: "pep_context \<Rightarrow> nat \<Rightarrow> u16 \<Rightarrow> bool" where
  "needs_rescale ctx symbol freq_max \<longleftrightarrow>
     ctx_freq ctx ! symbol \<ge> freq_max \<or> ctx_sum ctx \<ge> PEP_PROB_MAX_VALUE"

text \<open>
  The macro \<open>PEP_UPDATE( CONTEXT, SYMBOL, FREQ_MAX, PALETTE_SIZE )\<close>. It changes the
  context and the variable \<open>freq_max\<close>, a \<open>uint16_t\<close>; \<open>PALETTE_SIZE\<close> is a
  \<open>uint8_t\<close>, so \<open>( PEP_FREQ_END - PALETTE_SIZE ) >> 1\<close> is between 0 and 128.
\<close>

definition PEP_UPDATE :: "pep_context \<Rightarrow> nat \<Rightarrow> u16 \<Rightarrow> u8 \<Rightarrow> pep_context \<times> u16" where
  "PEP_UPDATE ctx symbol freq_max palette_size =
    (let ctx1 = \<lparr>ctx_freq = (ctx_freq ctx)[symbol := ctx_freq ctx ! symbol + 2],
                 ctx_sum = ctx_sum ctx + 2\<rparr>
     in if needs_rescale ctx1 symbol freq_max
        then (rescale ctx1, freq_max + of_nat ((PEP_FREQ_END - unat palette_size) div 2))
        else (ctx1, freq_max))"

text \<open>
  The model state of one encode or decode operation: the static array
  \<open>contexts[ PEP_CONTEXTS_MAX + 1 ]\<close> (entry 256 is \<open>order0\<close>), \<open>freq_max\<close> and
  \<open>context_id\<close>.
\<close>

record pep_model =
  contexts :: "pep_context list"
  freq_max :: u16
  context_id :: u64

text \<open>
  The state after the \<open>memset\<close> and the initialisation of \<open>order0\<close>.
\<close>

definition init_model :: pep_model where
  "init_model =
    \<lparr>contexts = replicate PEP_CONTEXTS_MAX \<lparr>ctx_freq = replicate PEP_FREQ_N 0, ctx_sum = 0\<rparr>
                 @ [\<lparr>ctx_freq = replicate PEP_FREQ_N 1, ctx_sum = of_nat PEP_FREQ_N\<rparr>],
     freq_max = PEP_FREQ_MAX,
     context_id = 0\<rparr>"

text \<open>The index \<open>context_id % PEP_CONTEXTS_MAX\<close> of the selected context.\<close>

definition context_index :: "pep_model \<Rightarrow> nat" where
  "context_index m = unat (context_id m) mod PEP_CONTEXTS_MAX"

text \<open>\<open>context_id = ( ( context_id << 8 ) | symbol )\<close>.\<close>

definition next_context_id :: "u64 \<Rightarrow> nat \<Rightarrow> u64" where
  "next_context_id cid symbol = push_bit 8 cid OR of_nat symbol"

text \<open>
  The model side of the body of \<open>if( indices_in_byte >= indices_per_byte || ... )\<close> in
  \<open>pep_compress\<close>: the probabilities passed to \<open>_pep_arith_encode\<close>, in call order,
  and the model after the step. When two are passed (escape, then order 0) the source
  renormalizes between them. The coder and the model share no state, so their updates
  are separated here; \<open>encode_symbol\<close> below puts them together.
\<close>

definition model_encode :: "pep_model \<Rightarrow> u8 \<Rightarrow> nat \<Rightarrow> pep_prob list \<times> pep_model" where
  "model_encode m palette_size symbol =
    (let ci = context_index m;
         context_ref = contexts m ! ci;
         order0 = contexts m ! PEP_CONTEXTS_MAX;
         context_sum = ctx_sum context_ref
     in if context_sum \<noteq> 0 \<and> ctx_freq context_ref ! symbol \<noteq> 0 then
          let prob = pep_get_prob_from_ctx context_ref symbol;
              (c', fm') = PEP_UPDATE context_ref symbol (freq_max m) palette_size
          in ([prob],
              \<lparr>contexts = (contexts m)[ci := c'], freq_max = fm',
               context_id = next_context_id (context_id m) symbol\<rparr>)
        else
          let escape = (if context_sum \<noteq> 0
                        then [pep_get_prob_from_ctx context_ref PEP_FREQ_END] else []);
              c1 = (if context_sum \<noteq> 0
                    then \<lparr>ctx_freq = (ctx_freq context_ref)
                                       [PEP_FREQ_END := ctx_freq context_ref ! PEP_FREQ_END + 1],
                          ctx_sum = ctx_sum context_ref + 1\<rparr>
                    else context_ref);
              prob = pep_get_prob_from_ctx order0 symbol;
              c2 = (if context_sum = 0
                    then \<lparr>ctx_freq = (ctx_freq c1)[PEP_FREQ_END := 1], ctx_sum = 1\<rparr>
                    else c1);
              c3 = \<lparr>ctx_freq = (ctx_freq c2)[symbol := 1], ctx_sum = ctx_sum c2 + 1\<rparr>;
              (o', fm') = PEP_UPDATE order0 symbol (freq_max m) palette_size
          in (escape @ [prob],
              \<lparr>contexts = ((contexts m)[ci := c3])[PEP_CONTEXTS_MAX := o'], freq_max = fm',
               context_id = next_context_id (context_id m) symbol\<rparr>))"

text \<open>
  The coder side of the same body: each probability is encoded, and the coder is
  renormalized after it (after the escape at once, after the last one at the end of
  the body).
\<close>

fun encode_probs :: "pep_ac_encode \<Rightarrow> pep_prob list \<Rightarrow> pep_ac_encode option" where
  "encode_probs ac [] = Some ac"
| "encode_probs ac (prob # probs) =
    (case pep_arith_encode ac prob of
       None \<Rightarrow> None
     | Some ac1 \<Rightarrow>
        (case pep_arith_encode_normalize ac1 of
           None \<Rightarrow> None
         | Some ac2 \<Rightarrow> encode_probs ac2 probs))"

section \<open>Images\<close>

text \<open>A C pointer that may be \<open>NULL\<close>, with what it points to otherwise.\<close>

datatype 'a ptr = NULL | Ptr 'a

text \<open>
  The struct \<open>pep\<close>. \<open>palette\<close> is the whole array of 256 entries; \<open>bytes\<close> is the
  buffer behind the pointer.
\<close>

record pep =
  bytes :: "u8 list ptr"
  bytes_size :: u64
  width :: u16
  height :: u16
  format :: pep_format
  palette :: "u32 list"
  palette_size :: u8
  channel_bits :: pep_channel_bits

text \<open>The value of \<open>pep out_pep = { 0 }\<close>.\<close>

definition empty_pep :: pep where
  "empty_pep =
    \<lparr>bytes = NULL, bytes_size = 0, width = 0, height = 0, format = pep_rgba,
     palette = replicate 256 0, palette_size = 0, channel_bits = pep_1bit\<rparr>"

section \<open>Compression\<close>

text \<open>
  The inner search of the palette construction:
  \<open>while( n < out_pep.palette_size && this_p != out_pep.palette[ n ] ) n++\<close>.
\<close>

function palette_search :: "u32 list \<Rightarrow> nat \<Rightarrow> u32 \<Rightarrow> nat \<Rightarrow> nat" where
  "palette_search pal psize this_p n =
    (if n < psize \<and> this_p \<noteq> pal ! n then palette_search pal psize this_p (Suc n) else n)"
  by pat_completeness auto
termination
  by (relation "measure (\<lambda>(pal, psize, this_p, n). psize - n)") auto

declare palette_search.simps [simp del]

text \<open>
  The palette construction loop over the pixels still to visit. \<open>first\<close> holds while
  \<open>p > in_pixels\<close> is false, that is at the first pixel only.
\<close>

fun palette_loop :: "u32 list \<times> u8 \<Rightarrow> bool \<Rightarrow> u32 \<Rightarrow> u32 list \<Rightarrow> u32 list \<times> u8" where
  "palette_loop (pal, psize) first last_p [] = (pal, psize)"
| "palette_loop (pal, psize) first last_p (this_p # rest) =
    (if \<not> first \<and> this_p = last_p then palette_loop (pal, psize) False last_p rest
     else
       let n = palette_search pal (unat psize) this_p 0
       in if n \<ge> unat psize \<and> unat psize + 1 < 256
          then palette_loop (pal[unat psize := this_p], psize + 1) False this_p rest
          else palette_loop (pal, psize) False this_p rest)"

text \<open>
  The index search of the packing loop, with its wrap to 0:
  \<open>while( index < palette_size && *p != palette[ index ] ) { if( ++index >= 256 ) { index = 0; break; } }\<close>.
\<close>

function index_search :: "u32 list \<Rightarrow> nat \<Rightarrow> u32 \<Rightarrow> nat \<Rightarrow> nat" where
  "index_search pal psize px index =
    (if index < psize \<and> px \<noteq> pal ! index
     then (if Suc index \<ge> 256 then 0 else index_search pal psize px (Suc index))
     else index)"
  by pat_completeness auto
termination
  by (relation "measure (\<lambda>(pal, psize, px, index). psize - index)") auto

declare index_search.simps [simp del]

text \<open>
  \<open>PEP_COUNT_LEADING_ZEROS\<close> is the compiler's count of leading zero bits of a
  32-bit value (not defined at 0, where the source never calls it).
\<close>

fun bit_length :: "nat \<Rightarrow> nat" where
  "bit_length n = (if n = 0 then 0 else Suc (bit_length (n div 2)))"

declare bit_length.simps [simp del]

definition PEP_COUNT_LEADING_ZEROS :: "nat \<Rightarrow> nat" where
  "PEP_COUNT_LEADING_ZEROS x = 32 - bit_length x"

definition PEP_BITS_TO_FIT :: "nat \<Rightarrow> nat" where
  "PEP_BITS_TO_FIT n = (if n \<le> 1 then 1 else 32 - PEP_COUNT_LEADING_ZEROS (n - 1))"

text \<open>\<open>bits_per_index\<close> with its cap, and \<open>indices_per_byte\<close>.\<close>

definition bits_per_index :: "u8 \<Rightarrow> nat" where
  "bits_per_index psize =
    (let b = PEP_BITS_TO_FIT (unat psize) in if b > 8 then 8 else b)"

definition indices_per_byte :: "u8 \<Rightarrow> nat" where
  "indices_per_byte psize = 8 div bits_per_index psize"

text \<open>The variables of the packing loop of \<open>pep_compress\<close>.\<close>

record pep_encoder =
  enc_ac :: pep_ac_encode
  enc_model :: pep_model
  enc_symbol :: u8
  enc_indices_in_byte :: nat

text \<open>
  The body of \<open>if( indices_in_byte >= indices_per_byte || ... )\<close>: one packed symbol
  goes through the model and the coder.
\<close>

definition encode_symbol :: "u8 \<Rightarrow> pep_encoder \<Rightarrow> pep_encoder option" where
  "encode_symbol psize st =
    (let (probs, m') = model_encode (enc_model st) psize (unat (enc_symbol st))
     in case encode_probs (enc_ac st) probs of
          None \<Rightarrow> None
        | Some ac' \<Rightarrow>
            Some \<lparr>enc_ac = ac', enc_model = m', enc_symbol = 0, enc_indices_in_byte = 0\<rparr>)"

text \<open>The body of \<open>if( p < p_end )\<close>: one pixel is packed into \<open>symbol\<close>.\<close>

definition pack_pixel :: "u32 list \<Rightarrow> u8 \<Rightarrow> pep_encoder \<Rightarrow> u32 \<Rightarrow> pep_encoder" where
  "pack_pixel pal psize st px =
    (let index = index_search pal (unat psize) px 0;
         sh = enc_indices_in_byte st * bits_per_index psize
     in st\<lparr>enc_symbol := enc_symbol st OR ucast (push_bit sh (of_nat index :: u32)),
           enc_indices_in_byte := Suc (enc_indices_in_byte st)\<rparr>)"

text \<open>
  The loop \<open>while( p < p_end || indices_in_byte > 0 )\<close> over the pixels still to read.
  With none left, one more pass runs when \<open>indices_in_byte > 0\<close>; it encodes the
  symbol and ends the loop.
\<close>

fun encode_loop :: "u32 list \<Rightarrow> u8 \<Rightarrow> pep_encoder \<Rightarrow> u32 list \<Rightarrow> pep_encoder option" where
  "encode_loop pal psize st [] =
    (if enc_indices_in_byte st > 0 then encode_symbol psize st else Some st)"
| "encode_loop pal psize st (px # rest) =
    (let st1 = pack_pixel pal psize st px
     in if enc_indices_in_byte st1 \<ge> indices_per_byte psize
           \<or> (rest = [] \<and> enc_indices_in_byte st1 > 0)
        then (case encode_symbol psize st1 of
                None \<Rightarrow> None
              | Some st2 \<Rightarrow> encode_loop pal psize st2 rest)
        else encode_loop pal psize st1 rest)"

text \<open>One pass of the flush loop: \<open>low >> 24\<close> is written, \<open>low\<close> moves up 8 bits.\<close>

definition flush_byte :: "pep_ac_encode \<Rightarrow> pep_ac_encode" where
  "flush_byte ac =
    ac\<lparr>enc_data_ref := enc_data_ref ac @ [ucast (drop_bit 24 (enc_low ac))],
       enc_low := push_bit 8 (enc_low ac)\<rparr>"

text \<open>The coder and the loop variables as the packing loop starts.\<close>

definition init_encoder :: pep_encoder where
  "init_encoder =
    \<lparr>enc_ac = \<lparr>enc_data_ref = [], enc_low = 0, enc_range = 0xFFFFFFFF\<rparr>,
     enc_model = init_model, enc_symbol = 0, enc_indices_in_byte = 0\<rparr>"

text \<open>
  \<open>pep_compress\<close>. \<open>in_pixels\<close> is the buffer behind the pointer; the source reads
  \<open>width * height\<close> pixels of it, so a shorter buffer gives no defined result. The
  product is taken in 32 bits. The allocations are assumed to succeed and the output
  buffer, of \<open>pixels_area * 8\<close> bytes, to be large enough.
\<close>

definition pep_compress ::
  "u32 list ptr \<Rightarrow> u16 \<Rightarrow> u16 \<Rightarrow> pep_format \<Rightarrow> pep_channel_bits \<Rightarrow> pep option" where
  "pep_compress in_pixels w h in_format in_channel_bits =
    (let pixels_area = (ucast w :: u32) * ucast h
     in case in_pixels of
          NULL \<Rightarrow> Some empty_pep
        | Ptr buf \<Rightarrow>
            if pixels_area = 0 then Some empty_pep
            else if length buf < unat pixels_area then None
            else
              let pixels = take (unat pixels_area) buf;
                  (pal, psize) = palette_loop (replicate 256 0, 0) True 0 pixels
              in (case encode_loop pal psize init_encoder pixels of
                    None \<Rightarrow> None
                  | Some st \<Rightarrow>
                      let ac = flush_byte (flush_byte (flush_byte (flush_byte (enc_ac st))))
                      in Some \<lparr>bytes = Ptr (enc_data_ref ac),
                               bytes_size = of_nat (length (enc_data_ref ac)),
                               width = w, height = h, format = in_format,
                               palette = pal, palette_size = psize,
                               channel_bits = in_channel_bits\<rparr>))"

section \<open>Decompression\<close>

text \<open>
  Byte \<open>k\<close> of a 32-bit value as the casts to \<open>uint8_t*\<close> see it. The layout is
  little-endian: byte 0 is the least significant.
\<close>

definition get_byte :: "u32 \<Rightarrow> nat \<Rightarrow> u8" where
  "get_byte c k = ucast (drop_bit (8 * k) c)"

definition set_byte :: "u32 \<Rightarrow> nat \<Rightarrow> u8 \<Rightarrow> u32" where
  "set_byte c k b = (c AND NOT (push_bit (8 * k) 0xff)) OR push_bit (8 * k) (ucast b)"

text \<open>The rounding rule of \<open>_pep_pre_multiply\<close> for one byte.\<close>

definition pre_multiply_byte :: "u8 \<Rightarrow> u32 \<Rightarrow> u8" where
  "pre_multiply_byte b scaled_a = ucast (drop_bit 16 ((ucast b :: u32) * scaled_a + 32896))"

text \<open>\<open>_pep_pre_multiply\<close>, with the bytes the source rewrites in each branch.\<close>

definition pep_pre_multiply :: "u32 \<Rightarrow> pep_format \<Rightarrow> u32" where
  "pep_pre_multiply pixel fmt =
    (if format_val fmt \<le> 1 then
       let scaled_a = (ucast (get_byte pixel 3) :: u32) * 257;
           p1 = set_byte pixel 1 (pre_multiply_byte (get_byte pixel 1) scaled_a);
           p2 = set_byte p1 2 (pre_multiply_byte (get_byte p1 2) scaled_a)
       in set_byte p2 3 (pre_multiply_byte (get_byte p2 3) scaled_a)
     else
       let scaled_a = (ucast (get_byte pixel 0) :: u32) * 257;
           p0 = set_byte pixel 0 (pre_multiply_byte (get_byte pixel 0) scaled_a);
           p1 = set_byte p0 1 (pre_multiply_byte (get_byte p0 1) scaled_a)
       in set_byte p1 2 (pre_multiply_byte (get_byte p1 2) scaled_a))"

text \<open>
  The variables of the decoding loop of \<open>pep_decompress\<close>. A pixel of \<open>out_pixels\<close>
  is \<open>None\<close> while nothing has been stored in it: the buffer comes from \<open>malloc\<close>.
  The decoder's \<open>context_id\<close> is a \<open>uint32_t\<close>; only \<open>context_id % 256\<close> is read.
\<close>

record pep_decoder =
  dec_ac :: pep_ac_decode
  dec_model :: pep_model
  out_pixels :: "u32 option list"
  canvas_pos :: nat

text \<open>
  The first half of the loop body: the symbol is read from the selected context when
  that has been used before. The result is the symbol (256 for the escape), whether a
  symbol was found, and the coder and context after the step.
\<close>

definition decode_from_context ::
  "pep_ac_decode \<Rightarrow> pep_context \<Rightarrow> u16 \<Rightarrow> u8
     \<Rightarrow> (nat option \<times> pep_ac_decode \<times> pep_context \<times> u16) option" where
  "decode_from_context ac context_ref fm psize =
    (if ctx_sum context_ref \<noteq> 0 then
       (case pep_arith_decode_curr_freq ac (ctx_sum context_ref) of
          None \<Rightarrow> None
        | Some (decode_freq, ac1) \<Rightarrow>
           (case pep_get_sym_from_freq context_ref decode_freq of
              None \<Rightarrow> None
            | Some (prob, symbol) \<Rightarrow>
               (case pep_arith_decode_update ac1 prob of
                  None \<Rightarrow> None
                | Some ac2 \<Rightarrow>
                    if symbol \<noteq> PEP_FREQ_END then
                      let (c', fm') = PEP_UPDATE context_ref symbol fm psize
                      in Some (Some symbol, ac2, c', fm')
                    else
                      Some (None, ac2,
                            \<lparr>ctx_freq = (ctx_freq context_ref)
                                          [PEP_FREQ_END := ctx_freq context_ref ! PEP_FREQ_END + 1],
                             ctx_sum = ctx_sum context_ref + 1\<rparr>, fm))))
     else Some (None, ac, context_ref, fm))"

text \<open>
  One decoded symbol: the whole model and coder step of the loop body, up to the
  conversion to pixels.
\<close>

definition decode_symbol :: "u8 \<Rightarrow> pep_ac_decode \<Rightarrow> pep_model \<Rightarrow> (nat \<times> pep_ac_decode \<times> pep_model) option" where
  "decode_symbol psize ac m =
    (let ci = context_index m;
         context_ref = contexts m ! ci;
         order0 = contexts m ! PEP_CONTEXTS_MAX;
         context_sum = ctx_sum context_ref
     in case decode_from_context ac context_ref (freq_max m) psize of
          None \<Rightarrow> None
        | Some (Some symbol, ac1, c1, fm1) \<Rightarrow>
            Some (symbol, ac1,
                  \<lparr>contexts = (contexts m)[ci := c1], freq_max = fm1,
                   context_id = next_context_id (context_id m) symbol\<rparr>)
        | Some (None, ac1, c1, fm1) \<Rightarrow>
           (case pep_arith_decode_curr_freq ac1 (ctx_sum order0) of
              None \<Rightarrow> None
            | Some (decode_freq, ac2) \<Rightarrow>
               (case pep_get_sym_from_freq order0 decode_freq of
                  None \<Rightarrow> None
                | Some (prob, symbol) \<Rightarrow>
                   (case pep_arith_decode_update ac2 prob of
                      None \<Rightarrow> None
                    | Some ac3 \<Rightarrow>
                        let c2 = (if context_sum = 0
                                  then \<lparr>ctx_freq = (ctx_freq c1)[PEP_FREQ_END := 1], ctx_sum = 1\<rparr>
                                  else c1);
                            c3 = \<lparr>ctx_freq = (ctx_freq c2)[symbol := 1],
                                  ctx_sum = ctx_sum c2 + 1\<rparr>;
                            (o', fm') = PEP_UPDATE order0 symbol fm1 psize
                        in Some (symbol, ac3,
                                 \<lparr>contexts = ((contexts m)[ci := c3])[PEP_CONTEXTS_MAX := o'],
                                  freq_max = fm',
                                  context_id = next_context_id (context_id m) symbol\<rparr>)))))"

text \<open>
  A read of the decoder's static \<open>palette[ 256 ]\<close>. Entries below \<open>palette_size\<close> were
  copied from the image. Entry 255 is never written, since \<open>palette_size\<close> is at most
  255, and still holds the zero of its static initialisation. The entries between hold
  whatever an earlier call left there, and an index of 256 is outside the array: \<open>None\<close>
  in both cases.
\<close>

definition palette_at :: "u32 option list \<Rightarrow> nat \<Rightarrow> u32 option" where
  "palette_at pal i = (if i < length pal then pal ! i else None)"

text \<open>The pixel stored for one palette index.\<close>

definition output_pixel :: "u32 option list \<Rightarrow> pep_format \<Rightarrow> pep_format \<Rightarrow> bool \<Rightarrow> nat \<Rightarrow> u32 option" where
  "output_pixel pal in_format out_format pre_multiply idx =
    map_option
      (\<lambda>c. let pixel = pep_reformat c in_format out_format
           in if pre_multiply then pep_pre_multiply pixel out_format else pixel)
      (palette_at pal idx)"

text \<open>
  The unpacking loop
  \<open>while( indices_in_byte < indices_per_byte && canvas_pos < area )\<close>, as a recursion
  on the number of indices still to take from the symbol.
\<close>

fun unpack_indices ::
  "(nat \<Rightarrow> u32 option) \<Rightarrow> nat \<Rightarrow> nat \<Rightarrow> nat \<Rightarrow> nat \<Rightarrow> nat \<Rightarrow> u32 option list \<times> nat
     \<Rightarrow> u32 option list \<times> nat" where
  "unpack_indices px_of bpi symbol area 0 iib (out, pos) = (out, pos)"
| "unpack_indices px_of bpi symbol area (Suc k) iib (out, pos) =
    (if pos < area then
       let palette_idx = unat ((ucast (drop_bit (iib * bpi) (of_nat symbol :: u32)) :: u8)
                                AND (ucast (push_bit bpi (1 :: u32) - 1) :: u8))
       in unpack_indices px_of bpi symbol area k (Suc iib) (out[pos := px_of palette_idx], Suc pos)
     else (out, pos))"

text \<open>
  The conversion of one symbol to pixels: the loop above when several indices share
  a byte, a single store otherwise.
\<close>

definition store_pixels ::
  "(nat \<Rightarrow> u32 option) \<Rightarrow> u8 \<Rightarrow> nat \<Rightarrow> nat \<Rightarrow> u32 option list \<times> nat \<Rightarrow> u32 option list \<times> nat" where
  "store_pixels px_of psize symbol area op =
    (if indices_per_byte psize > 1
     then unpack_indices px_of (bits_per_index psize) symbol area (indices_per_byte psize) 0 op
     else (if snd op < area then ((fst op)[snd op := px_of symbol], Suc (snd op)) else op))"

text \<open>
  The loop \<open>for( b = 0; b < packed_indices_size; b++ )\<close>, as a recursion on the
  number of passes still to run.
\<close>

fun decode_loop ::
  "(nat \<Rightarrow> u32 option) \<Rightarrow> u8 \<Rightarrow> nat \<Rightarrow> nat \<Rightarrow> pep_decoder \<Rightarrow> pep_decoder option" where
  "decode_loop px_of psize area 0 st = Some st"
| "decode_loop px_of psize area (Suc n) st =
    (case decode_symbol psize (dec_ac st) (dec_model st) of
       None \<Rightarrow> None
     | Some (symbol, ac', m') \<Rightarrow>
         let (out, pos) = store_pixels px_of psize symbol area (out_pixels st, canvas_pos st)
         in decode_loop px_of psize area n
              \<lparr>dec_ac = ac', dec_model = m', out_pixels = out, canvas_pos = pos\<rparr>)"

text \<open>
  One pass of the loop that loads \<open>code\<close>: the next input byte, or zero when the
  input is used up.
\<close>

definition load_code_byte :: "pep_ac_decode \<Rightarrow> pep_ac_decode" where
  "load_code_byte ac =
    (case dec_data_ref ac of
       [] \<Rightarrow> ac\<lparr>dec_code := push_bit 8 (dec_code ac)\<rparr>
     | b # bs \<Rightarrow> ac\<lparr>dec_data_ref := bs, dec_code := push_bit 8 (dec_code ac) OR ucast b\<rparr>)"

text \<open>
  \<open>pep_decompress\<close>. The result is the pointer it returns; the buffer behind
  \<open>in_pep->bytes\<close> is taken to hold at least \<open>bytes_size\<close> bytes.
\<close>

definition pep_decompress ::
  "pep ptr \<Rightarrow> pep_format \<Rightarrow> u8 \<Rightarrow> u8 \<Rightarrow> u32 option list ptr option" where
  "pep_decompress in_pep out_format transparent_first_color pre_multiply =
    (case in_pep of
       NULL \<Rightarrow> Some NULL
     | Ptr pp \<Rightarrow>
        (case bytes pp of
           NULL \<Rightarrow> Some NULL
         | Ptr buf \<Rightarrow>
             if bytes_size pp = 0 \<or> width pp = 0 \<or> height pp = 0 then Some NULL
             else if length buf < unat (bytes_size pp) then None
             else
               let area = unat ((ucast (width pp) :: u32) * ucast (height pp));
                   psize = palette_size pp;
                   pal0 = map Some (take (unat psize) (palette pp))
                            @ replicate (255 - unat psize) None @ [Some 0];
                   pal = (if transparent_first_color \<noteq> 0
                          then pal0[0 := map_option
                                 (\<lambda>c. if format_val (format pp) \<le> 1
                                       then c AND 0xffffff00 else c AND 0x00ffffff) (pal0 ! 0)]
                          else pal0);
                   packed_indices_size = area div indices_per_byte psize;
                   ac0 = \<lparr>dec_data_ref = take (unat (bytes_size pp)) buf, dec_low = 0,
                          dec_range = 0xFFFFFFFF, dec_code = 0\<rparr>;
                   ac = load_code_byte (load_code_byte (load_code_byte (load_code_byte ac0)));
                   st0 = \<lparr>dec_ac = ac, dec_model = init_model,
                          out_pixels = replicate area None, canvas_pos = 0\<rparr>
               in (case decode_loop (output_pixel pal (format pp) out_format (pre_multiply \<noteq> 0))
                          psize area packed_indices_size st0 of
                     None \<Rightarrow> None
                   | Some st \<Rightarrow> Some (Ptr (out_pixels st)))))"

section \<open>Container\<close>

subsection \<open>Serialization\<close>

text \<open>\<open>palette_count\<close>: a stored size of 0 stands for 256 colors.\<close>

definition palette_count :: "u8 \<Rightarrow> nat" where
  "palette_count psize = (if psize \<noteq> 0 then unat psize else 256)"

text \<open>
  The variable-length size: \<open>while( size >= 0x80 ) { emit ( size | 0x80 ) & 0xff; size >>= 7; }\<close>
  and the last byte. The source runs the loop twice, first to count the bytes.
\<close>

function put_size :: "u32 \<Rightarrow> u8 list" where
  "put_size sz =
    (if sz \<ge> 0x80 then ucast ((sz OR 0x80) AND 0xff) # put_size (drop_bit 7 sz)
     else [ucast sz])"
  by pat_completeness auto
termination
proof (relation "measure unat")
  show "wf (measure (unat :: u32 \<Rightarrow> nat))" by simp
next
  fix sz :: u32
  assume "0x80 \<le> sz"
  then have "0 < unat sz" by (simp add: word_le_nat_alt)
  then have "unat sz div 2 ^ 7 < unat sz" by simp
  then show "(drop_bit 7 sz, sz) \<in> measure unat"
    by (simp add: drop_bit_eq_div unat_div)
qed

declare put_size.simps [simp del]

text \<open>The tests of the bitmap check on one palette color.\<close>

definition is_white :: "u32 \<Rightarrow> bool" where
  "is_white c \<longleftrightarrow>
     get_byte c 0 = 255 \<and> get_byte c 1 = 255 \<and> get_byte c 2 = 255 \<and> get_byte c 3 = 255"

definition is_black :: "pep_format \<Rightarrow> u32 \<Rightarrow> bool" where
  "is_black fmt c \<longleftrightarrow>
     (if format_val fmt \<le> 1
      then get_byte c 0 = 0 \<and> get_byte c 1 = 0 \<and> get_byte c 2 = 0 \<and> get_byte c 3 = 255
      else get_byte c 0 = 255 \<and> get_byte c 1 = 0 \<and> get_byte c 2 = 0 \<and> get_byte c 3 = 0)"

text \<open>\<open>is_bitmap\<close>: two colors, white and black in either order.\<close>

definition is_bitmap :: "pep \<Rightarrow> bool" where
  "is_bitmap p \<longleftrightarrow>
     palette_count (palette_size p) = 2 \<and>
     ((is_white (palette p ! 0) \<and> is_black (format p) (palette p ! 1))
      \<or> (is_black (format p) (palette p ! 0) \<and> is_white (palette p ! 1)))"

text \<open>\<open>only_rgb\<close>: stays 1 for a bitmap, where the alpha loop does not run.\<close>

definition only_rgb :: "pep \<Rightarrow> bool" where
  "only_rgb p \<longleftrightarrow>
     is_bitmap p \<or>
     list_all (\<lambda>c. get_byte c 3 = 0xff) (take (palette_count (palette_size p)) (palette p))"

text \<open>The flags byte.\<close>

definition flags_byte :: "pep_format \<Rightarrow> pep_channel_bits \<Rightarrow> bool \<Rightarrow> bool \<Rightarrow> bool \<Rightarrow> u8" where
  "flags_byte fmt cb small rgb bitmap =
     (of_nat (format_val fmt) AND 0x3)
     OR push_bit 2 (of_nat (channel_bits_val cb) AND 0x3)
     OR push_bit 4 (of_bool small AND 0x1)
     OR push_bit 5 (of_bool rgb AND 0x1)
     OR push_bit 6 (of_bool bitmap AND 0x1)"

text \<open>The width and height bytes, from \<open>w = width - 1\<close> and \<open>h = height - 1\<close>.\<close>

definition put_dims :: "u16 \<Rightarrow> u16 \<Rightarrow> u8 list" where
  "put_dims w h =
    (if w \<le> 255 \<and> h \<le> 255 then [ucast (w AND 0xff), ucast (h AND 0xff)]
     else
       let packed_dims = push_bit 12 (ucast (w AND 0xfff) :: u32) OR ucast (h AND 0xfff)
       in [ucast (drop_bit 16 packed_dims AND 0xff), ucast (drop_bit 8 packed_dims AND 0xff),
           ucast (packed_dims AND 0xff)])"

text \<open>The palette at 8 bits per channel: three or four bytes per color.\<close>

definition put_color8 :: "bool \<Rightarrow> u32 \<Rightarrow> u8 list" where
  "put_color8 rgb c =
     [get_byte c 0, get_byte c 1, get_byte c 2] @ (if rgb then [] else [get_byte c 3])"

text \<open>
  The palette below 8 bits per channel. One channel enters the bit buffer:
  \<open>bit_buffer = ( bit_buffer << channel_bits ) | ( ( color[ k ] >> shift ) & mask )\<close>.
\<close>

definition push_channel :: "nat \<Rightarrow> u32 \<Rightarrow> u8 \<Rightarrow> u32" where
  "push_channel cbits bit_buffer b =
     push_bit cbits bit_buffer
       OR ucast (drop_bit (8 - cbits) b AND (ucast (push_bit cbits (1 :: u32) - 1) :: u8))"

text \<open>\<open>while( bit_count >= 8 ) { bit_count -= 8; emit ( bit_buffer >> bit_count ) & 0xff; }\<close>\<close>

function flush_bits :: "u32 \<Rightarrow> nat \<Rightarrow> u8 list \<times> nat" where
  "flush_bits bit_buffer bit_count =
    (if bit_count \<ge> 8
     then (let (out, n) = flush_bits bit_buffer (bit_count - 8)
           in (ucast (drop_bit (bit_count - 8) bit_buffer AND 0xff) # out, n))
     else ([], bit_count))"
  by pat_completeness auto
termination
  by (relation "measure (\<lambda>(b, n). n)") auto

declare flush_bits.simps [simp del]

fun put_colors_packed :: "nat \<Rightarrow> bool \<Rightarrow> u32 \<Rightarrow> nat \<Rightarrow> u32 list \<Rightarrow> u8 list" where
  "put_colors_packed cbits rgb bit_buffer bit_count [] =
    (if bit_count > 0 then [ucast (push_bit (8 - bit_count) bit_buffer AND 0xff)] else [])"
| "put_colors_packed cbits rgb bit_buffer bit_count (c # cs) =
    (let b3 = push_channel cbits (push_channel cbits (push_channel cbits bit_buffer
                (get_byte c 0)) (get_byte c 1)) (get_byte c 2);
         n3 = bit_count + cbits * 3;
         b4 = (if rgb then b3 else push_channel cbits b3 (get_byte c 3));
         n4 = (if rgb then n3 else n3 + cbits);
         (out, n) = flush_bits b4 n4
     in out @ put_colors_packed cbits rgb b4 n cs)"

text \<open>The palette size byte and the palette, absent for a bitmap.\<close>

definition put_palette :: "pep \<Rightarrow> u8 list" where
  "put_palette p =
    (if is_bitmap p then []
     else
       let cbits = 2 ^ channel_bits_val (channel_bits p);
           cols = take (palette_count (palette_size p)) (palette p)
       in palette_size p #
          (if cbits = 8 then concat (map (put_color8 (only_rgb p)) cols)
           else put_colors_packed cbits (only_rgb p) 0 0 cols))"

text \<open>
  \<open>pep_serialize\<close>: the returned pointer and \<open>*out_size\<close>. The buffer is given up to
  and with the final \<open>'\0'\<close>; the source allocates three more bytes and never writes
  them. \<open>out_size\<close> is \<open>out_bytes_ref - out_bytes\<close>, taken after the store of the
  \<open>'\0'\<close>, which does not move \<open>out_bytes_ref\<close>. The buffer behind \<open>in_pep->bytes\<close>
  has to hold \<open>bytes_size\<close> bytes.
\<close>

definition pep_serialize :: "pep ptr \<Rightarrow> (u8 list ptr \<times> u32) option" where
  "pep_serialize in_pep =
    (case in_pep of
       NULL \<Rightarrow> Some (NULL, 0)
     | Ptr p \<Rightarrow>
        (case bytes p of
           NULL \<Rightarrow> Some (NULL, 0)
         | Ptr buf \<Rightarrow>
             if width p = 0 \<or> height p = 0 \<or> bytes_size p = 0 then Some (NULL, 0)
             else if length buf < unat (bytes_size p) then None
             else
               let w = width p - 1;
                   h = height p - 1;
                   written =
                     flags_byte (format p) (channel_bits p) (w \<le> 255 \<and> h \<le> 255)
                        (only_rgb p) (is_bitmap p)
                     # put_dims w h
                     @ put_size (ucast (bytes_size p))
                     @ put_palette p
                     @ take (unat (bytes_size p)) buf
               in Some (Ptr (written @ [0]), of_nat (length written))))"

subsection \<open>Deserialization\<close>

text \<open>The enumerators for the two-bit fields of the flags byte.\<close>

definition format_of :: "u8 \<Rightarrow> pep_format" where
  "format_of v = (if v = 0 then pep_rgba else if v = 1 then pep_bgra
                  else if v = 2 then pep_abgr else pep_argb)"

definition channel_bits_of :: "u8 \<Rightarrow> pep_channel_bits" where
  "channel_bits_of v = (if v = 0 then pep_1bit else if v = 1 then pep_2bit
                        else if v = 2 then pep_4bit else pep_8bit)"

text \<open>
  Reads go through \<open>bytes_ref\<close>, modelled by the bytes from the cursor on. A read
  past the end of the buffer has no defined result.
\<close>

definition get_dims :: "bool \<Rightarrow> u8 list \<Rightarrow> ((u16 \<times> u16) \<times> u8 list) option" where
  "get_dims small bs =
    (if small then
       (case bs of
          b0 # b1 # rest \<Rightarrow> Some ((ucast b0, ucast b1), rest)
        | _ \<Rightarrow> None)
     else
       (case bs of
          b0 # b1 # b2 # rest \<Rightarrow>
            let packed_dims = push_bit 16 (ucast b0 :: u32) OR push_bit 8 (ucast b1) OR ucast b2
            in Some ((ucast (drop_bit 12 packed_dims AND 0xfff), ucast (packed_dims AND 0xfff)),
                     rest)
        | _ \<Rightarrow> None))"

text \<open>
  The \<open>do ... while( byte_val & 0x80 )\<close> loop of the size. A shift by 32 or more of
  the 32-bit value is not defined in C.
\<close>

fun get_size :: "u32 \<Rightarrow> nat \<Rightarrow> u8 list \<Rightarrow> (u32 \<times> u8 list) option" where
  "get_size acc shift [] = None"
| "get_size acc shift (byte_val # rest) =
    (if shift \<ge> 32 then None
     else
       let acc' = acc OR push_bit shift (ucast (byte_val AND 0x7f) :: u32)
       in if byte_val AND 0x80 \<noteq> 0 then get_size acc' (shift + 7) rest
          else Some (acc', rest))"

text \<open>The palette inferred for a bitmap.\<close>

definition bitmap_palette :: "pep_format \<Rightarrow> u32 list" where
  "bitmap_palette fmt =
     [set_byte 0 (if format_val fmt \<le> 1 then 3 else 0) 255, 0xffffffff] @ replicate 254 0"

text \<open>A color assembled from its four bytes in memory order.\<close>

definition color_of_bytes :: "u8 \<Rightarrow> u8 \<Rightarrow> u8 \<Rightarrow> u8 \<Rightarrow> u32" where
  "color_of_bytes b0 b1 b2 b3 = set_byte (set_byte (set_byte (set_byte 0 0 b0) 1 b1) 2 b2) 3 b3"

text \<open>The palette loop at 8 bits per channel, on the number of colors still to read.\<close>

fun get_colors8 :: "bool \<Rightarrow> nat \<Rightarrow> u8 list \<Rightarrow> (u32 list \<times> u8 list) option" where
  "get_colors8 rgb 0 bs = Some ([], bs)"
| "get_colors8 rgb (Suc n) bs =
    (if rgb then
       (case bs of
          b0 # b1 # b2 # rest \<Rightarrow>
            (case get_colors8 rgb n rest of
               None \<Rightarrow> None
             | Some (cs, rest') \<Rightarrow> Some (color_of_bytes b0 b1 b2 0xff # cs, rest'))
        | _ \<Rightarrow> None)
     else
       (case bs of
          b0 # b1 # b2 # b3 # rest \<Rightarrow>
            (case get_colors8 rgb n rest of
               None \<Rightarrow> None
             | Some (cs, rest') \<Rightarrow> Some (color_of_bytes b0 b1 b2 b3 # cs, rest'))
        | _ \<Rightarrow> None))"

text \<open>
  The scaling of a field of \<open>channel_bits\<close> bits back to 8 bits, in \<open>uint8_t\<close>.
\<close>

definition scale_channel :: "nat \<Rightarrow> u8 \<Rightarrow> u8" where
  "scale_channel cbits v =
    (let s0 = push_bit (8 - cbits) v;
         s1 = (if cbits < 8 then s0 OR drop_bit cbits s0 else s0)
     in if cbits < 4 then s1 OR drop_bit (2 * cbits) s1 else s1)"

text \<open>
  One channel of a packed palette: \<open>while( bit_count < channel_bits )\<close> refills the
  buffer by one byte (at most once, since \<open>channel_bits\<close> is below 8 here), then the
  field is taken from it.
\<close>

definition get_channel ::
  "nat \<Rightarrow> u32 \<times> nat \<times> u8 list \<Rightarrow> (u8 \<times> u32 \<times> nat \<times> u8 list) option" where
  "get_channel cbits st =
    (case st of (bit_buffer, bit_count, bs) \<Rightarrow>
       if bit_count < cbits then
         (case bs of
            [] \<Rightarrow> None
          | b # rest \<Rightarrow>
              let buf = push_bit 8 bit_buffer OR ucast b;
                  n = bit_count + 8 - cbits
              in Some (scale_channel cbits
                         (ucast (drop_bit n buf) AND (ucast (push_bit cbits (1 :: u32) - 1) :: u8)),
                       buf, n, rest))
       else
         let n = bit_count - cbits
         in Some (scale_channel cbits
                    (ucast (drop_bit n bit_buffer) AND (ucast (push_bit cbits (1 :: u32) - 1) :: u8)),
                  bit_buffer, n, bs))"

text \<open>The packed palette loop, on the number of colors still to read.\<close>

fun get_colors_packed ::
  "nat \<Rightarrow> bool \<Rightarrow> nat \<Rightarrow> u32 \<times> nat \<times> u8 list \<Rightarrow> (u32 list \<times> u8 list) option" where
  "get_colors_packed cbits rgb 0 st = Some ([], snd (snd st))"
| "get_colors_packed cbits rgb (Suc k) st =
    (case get_channel cbits st of
       None \<Rightarrow> None
     | Some (v0, st0) \<Rightarrow>
        (case get_channel cbits st0 of
           None \<Rightarrow> None
         | Some (v1, st1) \<Rightarrow>
            (case get_channel cbits st1 of
               None \<Rightarrow> None
             | Some (v2, st2) \<Rightarrow>
                 if rgb then
                   (case get_colors_packed cbits rgb k st2 of
                      None \<Rightarrow> None
                    | Some (cs, rest) \<Rightarrow> Some (color_of_bytes v0 v1 v2 0xff # cs, rest))
                 else
                   (case get_channel cbits st2 of
                      None \<Rightarrow> None
                    | Some (v3, st3) \<Rightarrow>
                       (case get_colors_packed cbits rgb k st3 of
                          None \<Rightarrow> None
                        | Some (cs, rest) \<Rightarrow> Some (color_of_bytes v0 v1 v2 v3 # cs, rest))))))"

text \<open>
  The palette part: the inferred bitmap palette, or the size byte and the colors,
  stored from entry 0 of the zeroed array.
\<close>

definition get_palette ::
  "pep_format \<Rightarrow> pep_channel_bits \<Rightarrow> bool \<Rightarrow> bool \<Rightarrow> u8 list
     \<Rightarrow> ((u8 \<times> u32 list) \<times> u8 list) option" where
  "get_palette fmt cb rgb bitmap bs =
    (if bitmap then Some ((2, bitmap_palette fmt), bs)
     else
       (case bs of
          [] \<Rightarrow> None
        | psize # rest \<Rightarrow>
            let cbits = 2 ^ channel_bits_val cb;
                n = palette_count psize
            in (case (if cbits = 8 then get_colors8 rgb n rest
                      else get_colors_packed cbits rgb n (0, 0, rest)) of
                  None \<Rightarrow> None
                | Some (cs, rest') \<Rightarrow> Some ((psize, cs @ replicate (256 - n) 0), rest'))))"

text \<open>
  \<open>pep_deserialize\<close>. The buffer behind \<open>in_bytes\<close> is read as far as the header
  says; \<open>malloc\<close> is assumed to succeed.
\<close>

definition pep_deserialize :: "u8 list ptr \<Rightarrow> pep option" where
  "pep_deserialize in_bytes =
    (case in_bytes of
       NULL \<Rightarrow> Some empty_pep
     | Ptr [] \<Rightarrow> None
     | Ptr (packed_flags # bs) \<Rightarrow>
         let fmt = format_of (packed_flags AND 0x3);
             cb = channel_bits_of (drop_bit 2 packed_flags AND 0x3);
             small = (drop_bit 4 packed_flags AND 0x1 \<noteq> 0);
             rgb = (drop_bit 5 packed_flags AND 0x1 \<noteq> 0);
             bitmap = (drop_bit 6 packed_flags AND 0x1 \<noteq> 0)
         in (case get_dims small bs of
               None \<Rightarrow> None
             | Some ((w, h), bs1) \<Rightarrow>
                (case get_size 0 0 bs1 of
                   None \<Rightarrow> None
                 | Some (sz, bs2) \<Rightarrow>
                    (case get_palette fmt cb rgb bitmap bs2 of
                       None \<Rightarrow> None
                     | Some ((psize, pal), bs3) \<Rightarrow>
                         if length bs3 < unat sz then None
                         else Some \<lparr>bytes = Ptr (take (unat sz) bs3), bytes_size = ucast sz,
                                    width = w + 1, height = h + 1, format = fmt,
                                    palette = pal, palette_size = psize,
                                    channel_bits = cb\<rparr>))))"

section \<open>Sample images\<close>

text \<open>
  What \<open>pep_compress\<close> returns for the 1-by-1 image with the pixel \<open>0x11223344\<close> in
  format rgba at 8 bits per channel.
\<close>

definition c7_image :: pep where
  "c7_image =
    \<lparr>bytes = Ptr [0, 0, 0, 0, 0], bytes_size = 5, width = 1, height = 1, format = pep_rgba,
     palette = 0x11223344 # replicate 255 0, palette_size = 1, channel_bits = pep_8bit\<rparr>"

text \<open>
  What \<open>pep_compress\<close> returns for the 2-by-1 image with the pixels \<open>0xFF0000FF\<close>
  and \<open>0xFF00FF00\<close> in format rgba at 8 bits per channel.
\<close>

definition c1_image :: pep where
  "c1_image =
    \<lparr>bytes = Ptr [1, 254, 1, 254], bytes_size = 4, width = 2, height = 1, format = pep_rgba,
     palette = 0xFF0000FF # 0xFF00FF00 # replicate 254 0, palette_size = 2,
     channel_bits = pep_8bit\<rparr>"


text \<open>
  What \<open>pep_compress\<close> returns for the 2-by-1 image with a white pixel and then a black
  one, in format rgba at 8 bits per channel.
\<close>

definition c2_white_black :: pep where
  "c2_white_black =
    \<lparr>bytes = Ptr [1, 254, 1, 254], bytes_size = 4, width = 2, height = 1, format = pep_rgba,
     palette = 0xFFFFFFFF # 0xFF000000 # replicate 254 0, palette_size = 2,
     channel_bits = pep_8bit\<rparr>"

text \<open>
  What \<open>pep_compress\<close> returns for the 2-by-1 image with a black pixel and then a white
  one, in format rgba at 1 bit per channel.
\<close>

definition c2_black_white :: pep where
  "c2_black_white =
    \<lparr>bytes = Ptr [1, 254, 1, 254], bytes_size = 4, width = 2, height = 1, format = pep_rgba,
     palette = 0xFF000000 # 0xFFFFFFFF # replicate 254 0, palette_size = 2,
     channel_bits = pep_1bit\<rparr>"

section \<open>Notions used to state the properties\<close>

text \<open>
  The distinct elements of a list in the order of their first occurrence: what a scan
  that appends every value not seen before collects.
\<close>

definition scan_order_distinct :: "'a list \<Rightarrow> 'a list" where
  "scan_order_distinct xs = rev (remdups (rev xs))"

text \<open>
  The invariant of the palette construction loop after the pixels \<open>seen\<close>: the used
  part of the palette holds the first 255 distinct colors seen, the rest of the array
  is still zero.
\<close>

definition palette_inv :: "u32 list \<Rightarrow> u32 list \<Rightarrow> u8 \<Rightarrow> bool" where
  "palette_inv seen pal psize \<longleftrightarrow>
     length pal = 256 \<and> unat psize = length (take 255 (scan_order_distinct seen)) \<and>
     take (unat psize) pal = take 255 (scan_order_distinct seen) \<and>
     drop (unat psize) pal = replicate (256 - unat psize) 0"

section \<open>The totals presented to the coder\<close>

text \<open>The model after the packed symbols \<open>syms\<close> have gone through \<open>model_encode\<close>.\<close>

definition run_model :: "u8 \<Rightarrow> pep_model \<Rightarrow> nat list \<Rightarrow> pep_model" where
  "run_model psize m syms = fold (\<lambda>s m. snd (model_encode m psize s)) syms m"

text \<open>
  The \<open>scale\<close> fields of the probabilities that reach \<open>_pep_arith_encode\<close> while the
  packed symbols \<open>syms\<close> are encoded from the model \<open>m\<close>, in call order: the totals the
  model presents to the coder.
\<close>

fun presented_totals :: "u8 \<Rightarrow> pep_model \<Rightarrow> nat list \<Rightarrow> u32 list" where
  "presented_totals psize m [] = []"
| "presented_totals psize m (s # ss) =
    map prob_scale (fst (model_encode m psize s))
      @ presented_totals psize (snd (model_encode m psize s)) ss"

text \<open>The shape of the model arrays: 257 contexts of 257 slots.\<close>

definition wf_model :: "pep_model \<Rightarrow> bool" where
  "wf_model m \<longleftrightarrow>
     length (contexts m) = 257 \<and> list_all (\<lambda>c. length (ctx_freq c) = 257) (contexts m)"

text \<open>
  The state of context 0 between two blocks of the sequence below: the model is back in
  context 0, whose sum is \<open>S\<close>, whose slot 0 is 1 and whose slots above \<open>k\<close> are unused.
\<close>

definition c4_inv :: "pep_model \<Rightarrow> nat \<Rightarrow> nat \<Rightarrow> bool" where
  "c4_inv m k S \<longleftrightarrow>
     wf_model m \<and> freq_max m = 128 \<and> context_index m = 0 \<and>
     unat (ctx_sum (contexts m ! 0)) = S \<and> ctx_freq (contexts m ! 0) ! 0 = 1 \<and>
     (\<forall>y. k < y \<and> y < 256 \<longrightarrow> ctx_freq (contexts m ! 0) ! y = 0)"

text \<open>The same inside the block of the symbol \<open>x\<close>, after \<open>j\<close> of its occurrences.\<close>

definition c4_mid :: "pep_model \<Rightarrow> nat \<Rightarrow> nat \<Rightarrow> nat \<Rightarrow> bool" where
  "c4_mid m x j S \<longleftrightarrow>
     wf_model m \<and> freq_max m = 128 \<and> context_index m = 0 \<and>
     unat (ctx_sum (contexts m ! 0)) = S \<and> ctx_freq (contexts m ! 0) ! 0 = 1 \<and>
     unat (ctx_freq (contexts m ! 0) ! x) + 1 = 2 * j \<and>
     (\<forall>y. x < y \<and> y < 256 \<longrightarrow> ctx_freq (contexts m ! 0) ! y = 0)"

text \<open>
  A sequence of packed symbols that drives the sum of context 0 past \<open>2^14\<close>. A block
  is \<open>n\<close> times the symbol \<open>x\<close> followed by the symbol 0, which leads back to context 0.
\<close>

definition c4_block :: "nat \<Rightarrow> nat \<Rightarrow> nat list" where
  "c4_block x n = concat (replicate n [x, 0])"

text \<open>The blocks of the symbols 1 to \<open>i\<close>, 64 occurrences each.\<close>

definition c4_blocks :: "nat \<Rightarrow> nat list" where
  "c4_blocks i = concat (map (\<lambda>x. c4_block x 64) [1..<Suc i])"

text \<open>
  The whole sequence: 16386 packed symbols over 131 symbol values. With 255 colors in
  the palette each pixel is one packed symbol and the threshold \<open>freq_max\<close> stays at 128.
\<close>

definition c4_symbols :: "nat list" where
  "c4_symbols = 0 # c4_blocks 127 @ c4_block 128 62 @ [129, 0, 130, 0] @ [0]"

text \<open>
  The pixels of an image of 130 by 127 that gives rise to the sequence: the colors are
  numbered in the order of their first occurrence, the sequence comes first and the
  colors 131 to 254 follow, so that the palette holds 255 colors.
\<close>

definition c4_pixels :: "u32 list" where
  "c4_pixels = map of_nat (c4_symbols @ [131..<255])"

section \<open>Properties of the channel reordering\<close>

lemma lt32_cases:
  "n < 32 \<Longrightarrow> (n::nat) \<in> {0, 1, 2, 3, 4, 5, 6, 7, 8, 9, 10, 11, 12, 13, 14, 15, 16, 17, 18, 19, 20, 21, 22, 23, 24, 25, 26, 27, 28, 29, 30, 31}"
  by (simp only: insert_iff empty_iff) arith

lemma word32_eqI:
  fixes x y :: u32
  assumes "\<forall>n \<in> {0, 1, 2, 3, 4, 5, 6, 7, 8, 9, 10, 11, 12, 13, 14, 15, 16, 17, 18, 19, 20, 21, 22, 23, 24, 25, 26, 27, 28, 29, 30, 31}. bit x n = bit y (n::nat)"
  shows "x = y"
proof (rule bit_word_eqI)
  fix n assume "n < LENGTH(32)"
  then have "n \<in> {0, 1, 2, 3, 4, 5, 6, 7, 8, 9, 10, 11, 12, 13, 14, 15, 16, 17, 18, 19, 20, 21, 22, 23, 24, 25, 26, 27, 28, 29, 30, 31}"
    using lt32_cases by simp
  with assms show "bit x n = bit y n" by blast
qed

text \<open>
  Claim C10. For every 32-bit color and every pair of formats, converting from the first
  format to the second and back gives the color again, and converting a format to itself
  changes nothing.
\<close>

theorem C10_reformat_round_trip:
  "pep_reformat (pep_reformat c a b) b a = c \<and> pep_reformat c a a = c"
proof
  show "pep_reformat (pep_reformat c a b) b a = c"
    by (cases a; cases b; simp add: pep_reformat_def)
       (rule word32_eqI, simp add: bit_simps)+
  show "pep_reformat c a a = c"
    by (simp add: pep_reformat_def)
qed

section \<open>Properties of the arithmetic coder\<close>

lemma encode_normalize_range:
  assumes "pep_arith_encode_normalize ac = Some ac'"
  shows "PEP_PROB_MAX_VALUE \<le> enc_range ac'"
  apply (rule pep_arith_encode_normalize.raw_induct
           [where P = "\<lambda>_ r. PEP_PROB_MAX_VALUE \<le> enc_range r", OF _ assms])
  apply (simp only: Let_def split: if_splits)
  apply force
  done

lemma decode_normalize_range:
  assumes "pep_arith_decode_normalize ac = Some ac'"
  shows "PEP_PROB_MAX_VALUE \<le> dec_range ac'"
  apply (rule pep_arith_decode_normalize.raw_induct
           [where P = "\<lambda>_ r. PEP_PROB_MAX_VALUE \<le> dec_range r", OF _ assms])
  apply (simp only: Let_def split: if_splits)
  apply force
  done

lemma prob_max_unat: "PEP_PROB_MAX_VALUE \<le> x \<longleftrightarrow> 2 ^ 14 \<le> unat x"
  by (simp add: PEP_PROB_MAX_VALUE_def word_le_nat_alt)

text \<open>
  Claim C3. Whenever the renormalization loop of the encoder returns, and whenever
  \<open>_pep_arith_decode_update\<close> (whose loop is the decoder's renormalization) returns,
  the range register of the coder is at least \<open>2^14\<close>.
\<close>

theorem C3_range_after_renormalization:
  "(pep_arith_encode_normalize ea = Some ea' \<longrightarrow> 2 ^ 14 \<le> unat (enc_range ea')) \<and>
   (pep_arith_decode_update da prob = Some da' \<longrightarrow> 2 ^ 14 \<le> unat (dec_range da'))"
  using encode_normalize_range [of ea ea'] decode_normalize_range [of _ da']
  by (auto simp: prob_max_unat pep_arith_decode_update_def)

text \<open>
  The claim at work: an encoder left with a range of 24 bits by the first symbol of an
  image, and a decoder narrowing its interval for the same symbol.
\<close>

theorem C3_range_after_renormalization_witness:
  "pep_arith_encode_normalize \<lparr>enc_data_ref = [], enc_low = 0, enc_range = 0x00FF00FF\<rparr>
     = Some \<lparr>enc_data_ref = [0], enc_low = 0, enc_range = 0xFF00FF00\<rparr> \<and>
   2 ^ 14 \<le> unat (enc_range \<lparr>enc_data_ref = [0], enc_low = 0, enc_range = 0xFF00FF00\<rparr>) \<and>
   pep_arith_decode_update
       \<lparr>dec_data_ref = [7], dec_low = 0, dec_range = 0x00FF00FF, dec_code = 0\<rparr>
       \<lparr>prob_high = 1, prob_low = 0, prob_scale = 257\<rparr>
     = Some \<lparr>dec_data_ref = [], dec_low = 0, dec_range = 0xFF00FF00, dec_code = 7\<rparr> \<and>
   2 ^ 14 \<le> unat (dec_range \<lparr>dec_data_ref = [], dec_low = 0, dec_range = 0xFF00FF00, dec_code = 7\<rparr>)"
proof -
  have e: "pep_arith_encode_normalize \<lparr>enc_data_ref = [], enc_low = 0, enc_range = 0x00FF00FF\<rparr>
     = Some \<lparr>enc_data_ref = [0], enc_low = 0, enc_range = 0xFF00FF00\<rparr>"
    by code_simp
  have d: "pep_arith_decode_update
       \<lparr>dec_data_ref = [7], dec_low = 0, dec_range = 0x00FF00FF, dec_code = 0\<rparr>
       \<lparr>prob_high = 1, prob_low = 0, prob_scale = 257\<rparr>
     = Some \<lparr>dec_data_ref = [], dec_low = 0, dec_range = 0xFF00FF00, dec_code = 7\<rparr>"
    by code_simp
  from C3_range_after_renormalization [THEN conjunct1, rule_format, OF e]
  have e': "2 ^ 14 \<le> unat (enc_range \<lparr>enc_data_ref = [0], enc_low = 0, enc_range = 0xFF00FF00\<rparr>)" .
  from C3_range_after_renormalization [THEN conjunct2, rule_format, OF d]
  have d': "2 ^ 14 \<le> unat (dec_range \<lparr>dec_data_ref = [], dec_low = 0, dec_range = 0xFF00FF00, dec_code = 7\<rparr>)" .
  from e d e' d' show ?thesis by blast
qed

section \<open>The 1-by-1 image and the round trip\<close>

lemma c7_compress:
  "pep_compress (Ptr [0x11223344]) 1 1 pep_rgba pep_8bit = Some c7_image"
  by code_simp

lemma c7_decompress:
  "pep_decompress (Ptr c7_image) pep_rgba 0 0 = Some (Ptr [None])"
  by code_simp

lemma c7_loop:
  "map_option (\<lambda>st. (enc_data_ref (enc_ac st),
                      ctx_sum (contexts (enc_model st) ! PEP_CONTEXTS_MAX)))
     (encode_loop (palette c7_image) 1 init_encoder [0x11223344]) = Some ([0], 259)"
  by code_simp

lemma c1_compress:
  "pep_compress (Ptr [0xFF0000FF, 0xFF00FF00]) 2 1 pep_rgba pep_8bit = Some c1_image"
  by code_simp

lemma c1_decompress:
  "pep_decompress (Ptr c1_image) pep_rgba 0 0 = Some (Ptr [None, None])"
  by code_simp

text \<open>
  Claim C7, as stated, fails: for the 1-by-1 image with the pixel \<open>0x11223344\<close> in
  format rgba the compressed stream has five bytes, not the four flush bytes alone, and
  \<open>pep_decompress\<close> runs no pass of its loop, so that the only pixel of the buffer it
  returns is never stored.
\<close>

theorem C7_counterexample:
  "pep_compress (Ptr [0x11223344]) 1 1 pep_rgba pep_8bit = Some c7_image \<and>
   bytes c7_image = Ptr [0, 0, 0, 0, 0] \<and> bytes_size c7_image = 5 \<and>
   pep_decompress (Ptr c7_image) pep_rgba 0 0 = Some (Ptr [None])"
  using c7_compress c7_decompress by (simp add: c7_image_def)

text \<open>
  Claim C7, amended. For the 1-by-1 image with the pixel \<open>0x11223344\<close> in format rgba
  at 8 bits per channel, \<open>pep_compress\<close> returns a palette whose only used entry is
  \<open>0x11223344\<close>; \<open>bits_per_index\<close> is 1 and \<open>indices_per_byte\<close> is 8; the packing
  loop encodes one packed symbol, the partial group holding the single index (after it
  the order-0 sum is 257 + 2 and one byte has been written); and the compressed stream
  is that byte followed by the four flush bytes, five zero bytes in all.
\<close>

theorem C7_one_by_one:
  "pep_compress (Ptr [0x11223344]) 1 1 pep_rgba pep_8bit = Some c7_image \<and>
   palette_size c7_image = 1 \<and>
   take (unat (palette_size c7_image)) (palette c7_image) = [0x11223344] \<and>
   bits_per_index (palette_size c7_image) = 1 \<and>
   indices_per_byte (palette_size c7_image) = 8 \<and>
   map_option (\<lambda>st. (enc_data_ref (enc_ac st),
                      ctx_sum (contexts (enc_model st) ! PEP_CONTEXTS_MAX)))
     (encode_loop (palette c7_image) 1 init_encoder [0x11223344]) = Some ([0], 259) \<and>
   bytes c7_image = Ptr [0, 0, 0, 0, 0] \<and> bytes_size c7_image = 5"
proof -
  have "bits_per_index 1 = 1"
    by (simp add: bits_per_index_def PEP_BITS_TO_FIT_def)
  then show ?thesis
    using c7_compress c7_loop by (simp add: c7_image_def indices_per_byte_def)
qed

text \<open>
  Claim C1 fails on the code. For the 2-by-1 image with the pixels \<open>0xFF0000FF\<close> and
  \<open>0xFF00FF00\<close> (two colors, so eight indices per packed symbol), \<open>pep_compress\<close>
  encodes the partial group, but \<open>pep_decompress\<close> runs \<open>2 / 8 = 0\<close> passes of its
  loop and returns a buffer in which no pixel has been stored.
\<close>

theorem C1_round_trip_fails:
  "pep_compress (Ptr [0xFF0000FF, 0xFF00FF00]) 2 1 pep_rgba pep_8bit = Some c1_image \<and>
   pep_decompress (Ptr c1_image) pep_rgba 0 0 = Some (Ptr [None, None]) \<and>
   Some (Ptr [None, None]) \<noteq> Some (Ptr (map Some [0xFF0000FF, 0xFF00FF00 :: u32]))"
  using c1_compress c1_decompress by simp

section \<open>Invalid input\<close>

lemma compress_keeps_width:
  assumes "pep_compress (Ptr buf) w h f cb = Some p"
    and "(ucast w :: u32) * ucast h \<noteq> 0"
  shows "width p = w \<and> height p = h \<and> bytes p \<noteq> NULL"
  using assms
  by (auto simp: pep_compress_def Let_def split: if_splits option.splits prod.splits)

text \<open>
  Claim C8, as stated, fails: the source has no test of the dimensions against 4096.
  For a 4097-by-1 image the area is not zero, the early return is not taken, and
  whatever \<open>pep_compress\<close> returns has width 4097: it is not the empty image.
\<close>

theorem C8_counterexample:
  "pep_compress (Ptr (replicate 4097 0)) 4097 1 pep_rgba pep_8bit \<noteq> Some empty_pep"
proof
  assume a: "pep_compress (Ptr (replicate 4097 0)) 4097 1 pep_rgba pep_8bit = Some empty_pep"
  have "(ucast (4097 :: u16) :: u32) * ucast (1 :: u16) \<noteq> 0" by simp
  from compress_keeps_width [OF a this] show False
    by (simp add: empty_pep_def)
qed

text \<open>
  Claim C8, amended. \<open>pep_compress\<close> returns the empty image (\<open>bytes = NULL\<close>,
  \<open>bytes_size = 0\<close>) whenever \<open>in_pixels\<close> is \<open>NULL\<close>, the width is 0 or the height is
  0; \<open>pep_decompress\<close> returns \<open>NULL\<close> whenever its input is \<open>NULL\<close>, the \<open>bytes\<close>
  pointer is \<open>NULL\<close>, \<open>bytes_size\<close> is 0, or the width or the height is 0.
\<close>

theorem C8_invalid_input:
  "pep_compress NULL w h f cb = Some empty_pep \<and>
   (w = 0 \<or> h = 0 \<longrightarrow> pep_compress in_pixels w h f cb = Some empty_pep) \<and>
   bytes empty_pep = NULL \<and> bytes_size empty_pep = 0 \<and>
   pep_decompress NULL out_format t m = Some NULL \<and>
   (bytes p = NULL \<or> bytes_size p = 0 \<or> width p = 0 \<or> height p = 0
      \<longrightarrow> pep_decompress (Ptr p) out_format t m = Some NULL)"
  by (auto simp: pep_compress_def pep_decompress_def empty_pep_def split: ptr.splits)

text \<open>The amended claim at a 0-by-3 image and at an image whose \<open>bytes_size\<close> is 0.\<close>

theorem C8_invalid_input_witness:
  "pep_compress (Ptr [1, 2, 3]) 0 3 pep_rgba pep_8bit = Some empty_pep \<and>
   pep_decompress (Ptr (c1_image\<lparr>bytes_size := 0\<rparr>)) pep_bgra 0 0 = Some NULL"
proof -
  have w: "(0 :: u16) = 0 \<or> (3 :: u16) = 0" by simp
  have d: "bytes (c1_image\<lparr>bytes_size := 0\<rparr>) = NULL
     \<or> bytes_size (c1_image\<lparr>bytes_size := 0\<rparr>) = 0
     \<or> width (c1_image\<lparr>bytes_size := 0\<rparr>) = 0
     \<or> height (c1_image\<lparr>bytes_size := 0\<rparr>) = 0" by simp
  note t = C8_invalid_input
    [of 0 3 pep_rgba pep_8bit "Ptr [1, 2, 3]" pep_bgra 0 0 "c1_image\<lparr>bytes_size := 0\<rparr>"]
  from t w have 1: "pep_compress (Ptr [1, 2, 3]) 0 3 pep_rgba pep_8bit = Some empty_pep"
    by blast
  from t d have 2: "pep_decompress (Ptr (c1_image\<lparr>bytes_size := 0\<rparr>)) pep_bgra 0 0 = Some NULL"
    by blast
  from 1 2 show ?thesis by blast
qed

section \<open>The end of the container\<close>

lemma serialize_shape:
  assumes "pep_serialize (Ptr p) = Some (Ptr out, n)" and "bytes p = Ptr buf"
  shows "\<exists>hdr. out = hdr @ take (unat (bytes_size p)) buf @ [0] \<and>
           n = of_nat (length hdr + unat (bytes_size p)) \<and> unat (bytes_size p) \<le> length buf"
  using assms
  by (auto simp: pep_serialize_def Let_def split: if_splits)

lemma c1_serialize:
  "pep_serialize (Ptr c1_image)
     = Some (Ptr [60, 1, 0, 4, 2, 255, 0, 0, 0, 255, 0, 1, 254, 1, 254, 0], 15)"
  by code_simp

text \<open>
  Claim C9, as stated, fails. For the image \<open>c1_image\<close> the container has 16 written
  bytes and \<open>out_size\<close> is 15: the final zero byte is not counted, and the byte at index
  \<open>out_size - 1\<close> is the last compressed byte, 254.
\<close>

theorem C9_counterexample:
  "pep_serialize (Ptr c1_image)
     = Some (Ptr [60, 1, 0, 4, 2, 255, 0, 0, 0, 255, 0, 1, 254, 1, 254, 0], 15) \<and>
   length [60, 1, 0, 4, 2, 255, 0, 0, 0, 255, 0, 1, 254, 1, 254, 0 :: u8] = 15 + 1 \<and>
   [60, 1, 0, 4, 2, 255, 0, 0, 0, 255, 0, 1, 254, 1, 254, 0 :: u8] ! (15 - 1) = 254"
  using c1_serialize by simp

text \<open>
  Claim C9, amended. For every image that \<open>pep_serialize\<close> accepts (with a container
  of at most \<open>2^32\<close> bytes), the returned buffer holds \<open>out_size\<close> bytes of container
  fields followed by one zero byte: the byte at index \<open>out_size\<close> is \<open>0x00\<close>, it comes
  immediately after the \<open>bytes_size\<close> compressed bytes, and \<open>out_size\<close> counts every
  container field but not this final byte.
\<close>

theorem C9_sentinel:
  assumes "pep_serialize (Ptr p) = Some (Ptr out, n)" and "bytes p = Ptr buf"
    and "length out \<le> 2 ^ 32"
  shows "length out = unat n + 1 \<and> out ! unat n = 0 \<and> unat (bytes_size p) \<le> unat n \<and>
         take (unat (bytes_size p)) (drop (unat n - unat (bytes_size p)) out)
           = take (unat (bytes_size p)) buf"
proof -
  from serialize_shape [OF assms(1,2)] obtain hdr where
    out: "out = hdr @ take (unat (bytes_size p)) buf @ [0]"
    and n: "n = of_nat (length hdr + unat (bytes_size p))"
    and le: "unat (bytes_size p) \<le> length buf" by blast
  let ?k = "length hdr + unat (bytes_size p)"
  from out le have len: "length out = ?k + 1" by simp
  with assms(3) have "?k < 2 ^ 32" by simp
  then have "unat (of_nat ?k :: u32) = ?k"
    by (intro of_nat_inverse [OF refl]) simp
  then have un: "unat n = ?k" by (simp only: n)
  show ?thesis
    using le by (simp add: un len out nth_append)
qed

text \<open>The amended claim at the image \<open>c1_image\<close>.\<close>

theorem C9_sentinel_witness:
  "pep_serialize (Ptr c1_image)
     = Some (Ptr [60, 1, 0, 4, 2, 255, 0, 0, 0, 255, 0, 1, 254, 1, 254, 0], 15) \<and>
   [60, 1, 0, 4, 2, 255, 0, 0, 0, 255, 0, 1, 254, 1, 254, 0 :: u8] ! unat (15 :: u32) = 0"
proof -
  have b: "bytes c1_image = Ptr [1, 254, 1, 254]" by (simp add: c1_image_def)
  have l: "length [60, 1, 0, 4, 2, 255, 0, 0, 0, 255, 0, 1, 254, 1, 254, 0 :: u8] \<le> 2 ^ 32"
    by simp
  from C9_sentinel [OF c1_serialize b l] c1_serialize show ?thesis by blast
qed

section \<open>Palette construction\<close>

lemma sod_snoc:
  "scan_order_distinct (xs @ [x]) =
     (if x \<in> set xs then scan_order_distinct xs else scan_order_distinct xs @ [x])"
  by (simp add: scan_order_distinct_def)

lemma sod_set [simp]: "set (scan_order_distinct xs) = set xs"
  by (simp add: scan_order_distinct_def)

lemma sod_distinct [simp]: "distinct (scan_order_distinct xs)"
  by (simp add: scan_order_distinct_def)

lemma palette_search_le:
  "n \<le> ps \<Longrightarrow> palette_search pal ps c n \<le> ps"
proof (induction pal ps c n rule: palette_search.induct)
  case (1 pal ps c n)
  show ?case
  proof (cases "n < ps \<and> c \<noteq> pal ! n")
    case True
    then have "palette_search pal ps c n = palette_search pal ps c (Suc n)"
      by (subst palette_search.simps) simp
    with 1 True show ?thesis by simp
  next
    case False
    then have "palette_search pal ps c n = n"
      by (subst palette_search.simps) auto
    with 1 show ?thesis by simp
  qed
qed

lemma palette_search_found:
  "palette_search pal ps c n < ps \<Longrightarrow> pal ! (palette_search pal ps c n) = c"
proof (induction pal ps c n rule: palette_search.induct)
  case (1 pal ps c n)
  show ?case
  proof (cases "n < ps \<and> c \<noteq> pal ! n")
    case True
    then have "palette_search pal ps c n = palette_search pal ps c (Suc n)"
      by (subst palette_search.simps) simp
    with 1 True show ?thesis by simp
  next
    case False
    then have "palette_search pal ps c n = n"
      by (subst palette_search.simps) auto
    with 1 False show ?thesis by auto
  qed
qed

lemma palette_search_first:
  "n \<le> j \<Longrightarrow> j < palette_search pal ps c n \<Longrightarrow> pal ! j \<noteq> c"
proof (induction pal ps c n rule: palette_search.induct)
  case (1 pal ps c n)
  show ?case
  proof (cases "n < ps \<and> c \<noteq> pal ! n")
    case True
    then have eq: "palette_search pal ps c n = palette_search pal ps c (Suc n)"
      by (subst palette_search.simps) simp
    show ?thesis
    proof (cases "j = n")
      case True
      with \<open>n < ps \<and> c \<noteq> pal ! n\<close> show ?thesis by auto
    next
      case False
      with 1 True eq show ?thesis by simp
    qed
  next
    case False
    then have "palette_search pal ps c n = n"
      by (subst palette_search.simps) auto
    with 1 show ?thesis by simp
  qed
qed

lemma palette_search_miss:
  assumes "ps \<le> length pal"
  shows "palette_search pal ps c 0 \<ge> ps \<longleftrightarrow> c \<notin> set (take ps pal)"
proof
  assume ge: "palette_search pal ps c 0 \<ge> ps"
  show "c \<notin> set (take ps pal)"
  proof
    assume "c \<in> set (take ps pal)"
    then obtain j where "j < ps" "pal ! j = c"
      using assms by (auto simp: in_set_conv_nth)
    with palette_search_first [of 0 j pal ps c] ge show False by simp
  qed
next
  assume nin: "c \<notin> set (take ps pal)"
  show "palette_search pal ps c 0 \<ge> ps"
  proof (rule ccontr)
    assume "\<not> ps \<le> palette_search pal ps c 0"
    then have lt: "palette_search pal ps c 0 < ps" by simp
    from palette_search_found [OF lt] lt assms nin show False
      by (auto simp: in_set_conv_nth)
  qed
qed

lemma index_search_eq:
  "ps \<le> 255 \<Longrightarrow> index_search pal ps c n = palette_search pal ps c n"
proof (induction pal ps c n rule: palette_search.induct)
  case (1 pal ps c n)
  show ?case
  proof (cases "n < ps \<and> c \<noteq> pal ! n")
    case True
    with 1 have "\<not> 256 \<le> Suc n" by simp
    with True have "index_search pal ps c n = index_search pal ps c (Suc n)"
      by (subst index_search.simps) simp
    moreover from True have "palette_search pal ps c n = palette_search pal ps c (Suc n)"
      by (subst palette_search.simps) simp
    ultimately show ?thesis using 1 True by simp
  next
    case False
    then have "palette_search pal ps c n = n" "index_search pal ps c n = n"
      by (subst palette_search.simps index_search.simps, auto)+
    then show ?thesis by simp
  qed
qed

lemma palette_inv_dup:
  assumes "palette_inv seen pal psize" "c \<in> set seen"
  shows "palette_inv (seen @ [c]) pal psize"
proof -
  from assms(2) have "scan_order_distinct (seen @ [c]) = scan_order_distinct seen"
    by (simp add: sod_snoc)
  with assms(1) show ?thesis
    unfolding palette_inv_def by auto
qed

lemma palette_inv_full:
  assumes "palette_inv seen pal psize" "\<not> unat psize + 1 < 256"
  shows "palette_inv (seen @ [c]) pal psize"
proof -
  from assms have "length (scan_order_distinct seen) \<ge> 255"
    by (auto simp: palette_inv_def)
  then have "take 255 (scan_order_distinct seen @ [c]) = take 255 (scan_order_distinct seen)"
    by simp
  then have "take 255 (scan_order_distinct (seen @ [c])) = take 255 (scan_order_distinct seen)"
    by (simp add: sod_snoc)
  with assms(1) show ?thesis
    unfolding palette_inv_def by auto
qed

lemma palette_inv_append:
  assumes inv: "palette_inv seen pal psize" and room: "unat psize + 1 < 256"
    and new: "c \<notin> set (take (unat psize) pal)"
  shows "palette_inv (seen @ [c]) (pal[unat psize := c]) (psize + 1)"
proof -
  from inv room have short: "length (scan_order_distinct seen) < 255"
    by (auto simp: palette_inv_def)
  with inv have tk: "take (unat psize) pal = scan_order_distinct seen"
    and ps: "unat psize = length (scan_order_distinct seen)" and len: "length pal = 256"
    and dr: "drop (unat psize) pal = replicate (256 - unat psize) 0"
    by (auto simp: palette_inv_def)
  from new tk have nin: "c \<notin> set seen" by simp
  have un: "unat (psize + 1) = unat psize + 1"
    using room by (simp add: unat_word_ariths)
  have "take (unat psize + 1) (pal[unat psize := c]) = take (unat psize) pal @ [c]"
    using len room by (simp add: take_Suc_conv_app_nth)
  moreover have "drop (unat psize + 1) (pal[unat psize := c]) = replicate (256 - (unat psize + 1)) 0"
  proof -
    have "drop (unat psize + 1) (pal[unat psize := c]) = drop 1 (drop (unat psize) pal)"
      by simp
    also have "\<dots> = replicate (256 - unat psize - 1) 0"
      unfolding dr by simp
    finally show ?thesis by simp
  qed
  ultimately show ?thesis
    using tk ps short nin un len by (simp add: palette_inv_def sod_snoc)
qed

lemma palette_loop_inv:
  assumes "palette_inv seen pal psize"
    and "first \<longrightarrow> seen = []"
    and "\<not> first \<longrightarrow> seen \<noteq> [] \<and> last seen = last_p"
    and "palette_loop (pal, psize) first last_p rest = (pal', psize')"
  shows "palette_inv (seen @ rest) pal' psize'"
  using assms
proof (induction rest arbitrary: seen pal psize first last_p)
  case Nil
  then show ?case by simp
next
  case (Cons this_p rest)
  have len: "unat psize \<le> length pal"
    using Cons.prems(1) by (simp add: palette_inv_def)
  show ?case
  proof (cases "\<not> first \<and> this_p = last_p")
    case True
    with Cons.prems have "this_p \<in> set seen" by (metis last_in_set)
    with Cons.prems(1) have inv: "palette_inv (seen @ [this_p]) pal psize"
      by (rule palette_inv_dup)
    from True Cons.prems(4)
    have "palette_loop (pal, psize) False last_p rest = (pal', psize')" by simp
    from Cons.IH [OF inv _ _ this] True show ?thesis by simp
  next
    case False
    let ?n = "palette_search pal (unat psize) this_p 0"
    show ?thesis
    proof (cases "?n \<ge> unat psize \<and> unat psize + 1 < 256")
      case True
      with palette_search_miss [OF len] have "this_p \<notin> set (take (unat psize) pal)" by simp
      with Cons.prems(1) True
      have inv: "palette_inv (seen @ [this_p]) (pal[unat psize := this_p]) (psize + 1)"
        by (simp add: palette_inv_append)
      from Cons.prems(4)
      have "palette_loop (pal[unat psize := this_p], psize + 1) False this_p rest = (pal', psize')"
        by (simp only: palette_loop.simps Let_def if_not_P [OF False] if_P [OF True])
      from Cons.IH [OF inv _ _ this] show ?thesis by simp
    next
      case nf: False
      have inv: "palette_inv (seen @ [this_p]) pal psize"
      proof (cases "?n \<ge> unat psize")
        case True
        with nf have "\<not> unat psize + 1 < 256" by simp
        with Cons.prems(1) show ?thesis by (rule palette_inv_full)
      next
        case False
        with palette_search_miss [OF len] have "this_p \<in> set (take (unat psize) pal)" by simp
        moreover from Cons.prems(1)
        have "take (unat psize) pal = take 255 (scan_order_distinct seen)"
          unfolding palette_inv_def by blast
        ultimately have "this_p \<in> set (scan_order_distinct seen)"
          by (metis in_set_takeD)
        then have "this_p \<in> set seen" by simp
        with Cons.prems(1) show ?thesis by (rule palette_inv_dup)
      qed
      from Cons.prems(4)
      have "palette_loop (pal, psize) False this_p rest = (pal', psize')"
        by (simp only: palette_loop.simps Let_def if_not_P [OF False] if_not_P [OF nf])
      from Cons.IH [OF inv _ _ this] show ?thesis by simp
    qed
  qed
qed

lemma palette_inv_init: "palette_inv [] (replicate 256 0) 0"
  unfolding palette_inv_def scan_order_distinct_def by simp

lemma index_search_miss:
  assumes "ps \<le> 255" "ps \<le> length pal" "c \<notin> set (take ps pal)"
  shows "index_search pal ps c 0 = ps"
proof -
  from palette_search_miss [OF assms(2), of c] assms(3)
  have "ps \<le> palette_search pal ps c 0" by simp
  moreover have "palette_search pal ps c 0 \<le> ps"
    by (rule palette_search_le) simp
  ultimately show ?thesis
    by (simp add: index_search_eq [OF assms(1)])
qed

lemma palette_loop_spec:
  assumes "palette_loop (replicate 256 0, 0) True 0 pixels = (pal, psize)"
  shows "palette_inv pixels pal psize"
proof -
  have a: "True \<longrightarrow> ([] :: u32 list) = []" by simp
  have b: "\<not> True \<longrightarrow> ([] :: u32 list) \<noteq> [] \<and> last [] = (0 :: u32)" by simp
  from palette_loop_inv [OF palette_inv_init a b assms] show ?thesis by simp
qed

lemma index_search_hit:
  assumes le: "ps \<le> 255" and len: "ps \<le> length pal" and dist: "distinct (take ps pal)"
    and px: "px \<in> set (take ps pal)"
  shows "index_search pal ps px 0 < ps \<and> pal ! index_search pal ps px 0 = px \<and>
         (\<forall>j < ps. pal ! j = px \<longrightarrow> j = index_search pal ps px 0)"
proof -
  let ?i = "palette_search pal ps px 0"
  have eq: "index_search pal ps px 0 = ?i" by (rule index_search_eq [OF le])
  have lt: "?i < ps"
  proof (rule ccontr)
    assume "\<not> ?i < ps"
    then have "ps \<le> ?i" by simp
    with palette_search_miss [OF len, of px] px show False by blast
  qed
  from palette_search_found [OF lt] have at: "pal ! ?i = px" .
  have nd: "\<forall>i<ps. \<forall>j<ps. i \<noteq> j \<longrightarrow> pal ! i \<noteq> pal ! j"
    using dist len by (simp add: distinct_conv_nth)
  have "j = ?i" if j: "j < ps" "pal ! j = px" for j
  proof (rule ccontr)
    assume "j \<noteq> ?i"
    with nd j(1) lt have "pal ! j \<noteq> pal ! ?i" by blast
    with j(2) at show False by simp
  qed
  with lt at show ?thesis unfolding eq by blast
qed


lemma sod_id: "distinct xs \<Longrightarrow> scan_order_distinct xs = xs"
  by (simp add: scan_order_distinct_def distinct_remdups_id)

lemma of_nat_u32_inj: "i < 2 ^ 32 \<Longrightarrow> j < 2 ^ 32 \<Longrightarrow> (of_nat i :: u32) = of_nat j \<Longrightarrow> i = j"
  by (drule arg_cong [where f = unat]) (simp add: unat_of_nat)

lemma distinct_colors: "n \<le> 2 ^ 32 \<Longrightarrow> distinct (map of_nat [0..<n] :: u32 list)"
  by (auto simp: distinct_map inj_on_def intro: of_nat_u32_inj)

lemma c6_palette_loop:
  "palette_loop (replicate 256 0, 0) True 0 (map of_nat [0..<256])
     = (map of_nat [0..<255] @ [0], 255)"
proof -
  obtain pal psize where r: "palette_loop (replicate 256 0, 0) True 0 (map of_nat [0..<256]) = (pal, psize)"
    by (cases "palette_loop (replicate 256 0, 0) True 0 (map of_nat [0..<256])")
  have d: "scan_order_distinct (map of_nat [0..<256] :: u32 list) = map of_nat [0..<256]"
    by (rule sod_id) (rule distinct_colors, simp)
  have t: "take 255 (map of_nat [0..<256] :: u32 list) = map of_nat [0..<255]"
    by (simp add: take_map)
  from palette_loop_spec [OF r]
  have tk: "take (unat psize) pal = map of_nat [0..<255]"
    and ps: "unat psize = 255"
    and dr: "drop (unat psize) pal = replicate (256 - unat psize) 0"
    unfolding palette_inv_def d t by auto
  from ps have "(of_nat (unat psize) :: u8) = of_nat 255" by (simp only:)
  then have p: "psize = 255" by simp
  have "pal = take 255 pal @ drop 255 pal" by simp
  also have "\<dots> = map of_nat [0..<255] @ [0]"
    using tk dr unfolding ps by simp
  finally show ?thesis using r p by simp
qed

lemma c6_index:
  "index_search (map of_nat [0..<255] @ [0]) 255 255 0 = 255"
proof (rule index_search_miss)
  show "(255 :: u32) \<notin> set (take 255 (map of_nat [0..<255] @ [0]))"
  proof
    assume "(255 :: u32) \<in> set (take 255 (map of_nat [0..<255] @ [0]))"
    then obtain i where i: "i < 255" "(of_nat i :: u32) = 255" by auto
    then have "(of_nat i :: u32) = of_nat 255" by simp
    with i(1) have "i = 255" by (intro of_nat_u32_inj) simp_all
    with i(1) show False by simp
  qed
qed simp_all


lemma c6_small_palette:
  "palette_loop (replicate 256 0, 0) True 0 [5, 5, 7, 5, 9, 7] = ([5, 7, 9] @ replicate 253 0, 3)"
  by code_simp

text \<open>
  Claim C6, as stated, fails. For the 256 pixels with the colors 0, 1, ..., 255 the
  palette stops at 255 entries (the guard \<open>palette_size + 1 < 256\<close>), and the last
  color, which is not in it, gets the index 255, not 0.
\<close>

theorem C6_counterexample:
  "palette_loop (replicate 256 0, 0) True 0 (map of_nat [0..<256])
     = (map of_nat [0..<255] @ [0], 255) \<and>
   index_search (map of_nat [0..<255] @ [0]) (unat (255 :: u8)) 255 0 = 255"
  using c6_palette_loop c6_index by simp

text \<open>
  Claim C6, amended. Scanning the pixels in row-major order, \<open>pep_compress\<close> appends
  each color not already present to the palette until the palette holds 255 entries:
  the used part of the palette is the first 255 distinct colors in scan order. Every
  pixel whose color is in the palette is encoded as the unique index below
  \<open>palette_size\<close> at which the palette holds that color.
\<close>

theorem C6_palette:
  assumes "palette_loop (replicate 256 0, 0) True 0 pixels = (pal, psize)"
  shows "take (unat psize) pal = take 255 (scan_order_distinct pixels) \<and>
         (\<forall>px \<in> set (take (unat psize) pal).
            index_search pal (unat psize) px 0 < unat psize \<and>
            pal ! index_search pal (unat psize) px 0 = px \<and>
            (\<forall>j < unat psize. pal ! j = px \<longrightarrow> j = index_search pal (unat psize) px 0))"
proof -
  from palette_loop_spec [OF assms]
  have tk: "take (unat psize) pal = take 255 (scan_order_distinct pixels)"
    and ps: "unat psize = length (take 255 (scan_order_distinct pixels))"
    and l256: "length pal = 256"
    unfolding palette_inv_def by blast+
  from ps have le: "unat psize \<le> 255" by simp
  with l256 have len: "unat psize \<le> length pal" by simp
  have dist: "distinct (take (unat psize) pal)"
    unfolding tk by (rule distinct_take) (rule sod_distinct)
  from index_search_hit [OF le len dist] tk show ?thesis by blast
qed

text \<open>The amended claim at six pixels with three colors, for the color 7.\<close>

theorem C6_palette_witness:
  "palette_loop (replicate 256 0, 0) True 0 [5, 5, 7, 5, 9, 7]
     = ([5, 7, 9] @ replicate 253 0, 3) \<and>
   take (unat (3 :: u8)) ([5, 7, 9] @ replicate 253 0)
     = take 255 (scan_order_distinct [5, 5, 7, 5, 9, 7 :: u32]) \<and>
   index_search ([5, 7, 9] @ replicate 253 0) (unat (3 :: u8)) 7 0 < unat (3 :: u8) \<and>
   ([5, 7, 9] @ replicate 253 0) ! index_search ([5, 7, 9] @ replicate 253 0) (unat (3 :: u8)) 7 0
     = (7 :: u32)"
proof -
  note t = C6_palette [OF c6_small_palette]
  have m: "(7 :: u32) \<in> set (take (unat (3 :: u8)) ([5, 7, 9] @ replicate 253 0))"
    by simp
  from t [THEN conjunct1] t [THEN conjunct2, rule_format, OF m] c6_small_palette
  show ?thesis by blast
qed

section \<open>Frequency update and rescaling\<close>

lemma unat_ucast_16_32: "unat (ucast (f :: u16) :: u32) = unat f"
proof -
  have "unat f < 2 ^ 16" using unsigned_less [of f] by simp
  then have "unat f < 2 ^ 32" by simp
  then show ?thesis
    by (simp add: unsigned_ucast_eq take_bit_nat_eq_self)
qed

lemma unat_u16_bound: "unat (f :: u16) < 65536"
  using unsigned_less [of f] by simp

lemma rescale_freq_unat:
  "unat (rescale_freq f) = (if unat f = 0 then 0 else (unat f + 1) div 2)"
proof (cases "f = 0")
  case True
  then show ?thesis by (simp add: rescale_freq_def)
next
  case False
  then have nz: "unat f \<noteq> 0" by (simp add: unsigned_eq_0_iff)
  have b: "unat f < 65536" by (rule unat_u16_bound)
  have "unat ((ucast f :: u32) + 1) = unat f + 1"
    using b by (simp add: unat_word_ariths unat_ucast_16_32)
  then have "unat (drop_bit 1 ((ucast f :: u32) + 1)) = (unat f + 1) div 2"
    by (simp add: drop_bit_eq_div unat_div)
  moreover have "(unat f + 1) div 2 < 2 ^ 16" using b by simp
  ultimately have "unat (ucast (drop_bit 1 ((ucast f :: u32) + 1)) :: u16) = (unat f + 1) div 2"
    by (simp add: unsigned_ucast_eq take_bit_nat_eq_self)
  with False nz show ?thesis by (simp add: rescale_freq_def)
qed

lemma rescale_freq_le: "unat (rescale_freq f) \<le> 32768"
proof -
  have "(unat f + 1) div 2 \<le> 32768" using unat_u16_bound [of f] by arith
  then show ?thesis by (simp add: rescale_freq_unat)
qed

lemma fold_add_of_nat:
  "fold (\<lambda>f acc. acc + (ucast f :: u32)) (fs :: u16 list) a = a + of_nat (sum_list (map unat fs))"
  by (induction fs arbitrary: a) (simp_all add: add.assoc)

lemma sum_list_bound:
  "(\<And>x. x \<in> set xs \<Longrightarrow> f x \<le> (b :: nat)) \<Longrightarrow> sum_list (map f xs) \<le> length xs * b"
  by (induction xs) (simp_all add: add_mono)

lemma rescale_sum:
  assumes "length (ctx_freq ctx) = 257"
  shows "unat (ctx_sum (rescale ctx)) = sum_list (map unat (ctx_freq (rescale ctx)))"
proof -
  let ?fs = "map rescale_freq (ctx_freq ctx)"
  have "sum_list (map unat ?fs) \<le> length ?fs * 32768"
    by (rule sum_list_bound) (auto simp: rescale_freq_le)
  with assms have "sum_list (map unat ?fs) < 2 ^ 32" by simp
  then have "unat (of_nat (sum_list (map unat ?fs)) :: u32) = sum_list (map unat ?fs)"
    by (intro of_nat_inverse [OF refl]) simp
  then show ?thesis
    by (simp add: rescale_def Let_def fold_add_of_nat)
qed

lemma update_contract:
  assumes "length (ctx_freq ctx) = 257" and "symbol < 257"
    and "PEP_UPDATE ctx symbol F psize = (ctx', F')"
  shows "if ctx_freq ctx ! symbol + 2 \<ge> F \<or> unat (ctx_sum ctx + 2) \<ge> 2 ^ 14
         then F' = F + of_nat ((256 - unat psize) div 2) \<and>
              length (ctx_freq ctx') = 257 \<and>
              (\<forall>i < 257. unat (ctx_freq ctx' ! i) =
                 (let v = unat (if i = symbol then ctx_freq ctx ! i + 2 else ctx_freq ctx ! i)
                  in if v = 0 then 0 else (v + 1) div 2)) \<and>
              unat (ctx_sum ctx') = sum_list (map unat (ctx_freq ctx'))
         else F' = F \<and>
              ctx_freq ctx' = (ctx_freq ctx)[symbol := ctx_freq ctx ! symbol + 2] \<and>
              ctx_sum ctx' = ctx_sum ctx + 2"
proof -
  let ?c1 = "\<lparr>ctx_freq = (ctx_freq ctx)[symbol := ctx_freq ctx ! symbol + 2],
              ctx_sum = ctx_sum ctx + 2\<rparr>"
  have nr: "needs_rescale ?c1 symbol F \<longleftrightarrow>
              (ctx_freq ctx ! symbol + 2 \<ge> F \<or> unat (ctx_sum ctx + 2) \<ge> 2 ^ 14)"
    using assms(1,2) by (simp add: needs_rescale_def prob_max_unat)
  show ?thesis
  proof (cases "needs_rescale ?c1 symbol F")
    case False
    with assms(3) have "ctx' = ?c1" "F' = F"
      by (simp_all add: PEP_UPDATE_def Let_def)
    with False nr show ?thesis by simp
  next
    case True
    with assms(3) have c': "ctx' = rescale ?c1"
      and F': "F' = F + of_nat ((PEP_FREQ_END - unat psize) div 2)"
      by (simp_all add: PEP_UPDATE_def Let_def)
    have len: "length (ctx_freq ctx') = 257"
      using assms(1) by (simp add: c' rescale_def Let_def)
    have each: "unat (ctx_freq ctx' ! i) =
                 (let v = unat (if i = symbol then ctx_freq ctx ! i + 2 else ctx_freq ctx ! i)
                  in if v = 0 then 0 else (v + 1) div 2)" if "i < 257" for i
      using that assms(1,2)
      by (simp add: c' rescale_def Let_def rescale_freq_unat nth_list_update)
    have sm: "unat (ctx_sum ctx') = sum_list (map unat (ctx_freq ctx'))"
      unfolding c' by (rule rescale_sum) (simp add: assms(1))
    from True nr len each sm F' show ?thesis
      by (simp add: PEP_FREQ_END_def)
  qed
qed


lemma PEP_UPDATE_freq_max:
  "PEP_UPDATE c s F ps = (c', F') \<Longrightarrow> F' = F \<or> F' = F + of_nat ((256 - unat ps) div 2)"
  by (auto simp: PEP_UPDATE_def Let_def PEP_FREQ_END_def split: if_splits)

lemma freq_max_step_le:
  assumes "F' = F \<or> F' = F + of_nat ((256 - unat ps) div 2)"
    and "unat (F :: u16) + (256 - unat (ps :: u8)) div 2 < 2 ^ 16"
  shows "F \<le> F'"
proof -
  have "unat (of_nat ((256 - unat ps) div 2) :: u16) = (256 - unat ps) div 2"
    by (intro of_nat_inverse [OF refl]) simp
  with assms(2) have "unat (F + of_nat ((256 - unat ps) div 2)) = unat F + (256 - unat ps) div 2"
    by (simp add: unat_word_ariths)
  with assms(1) show ?thesis by (auto simp: word_le_nat_alt)
qed

lemma model_encode_freq_max:
  "freq_max (snd (model_encode m ps s)) = freq_max m \<or>
   freq_max (snd (model_encode m ps s)) = freq_max m + of_nat ((256 - unat ps) div 2)"
proof -
  let ?c = "contexts m ! context_index m"
  let ?o = "contexts m ! PEP_CONTEXTS_MAX"
  obtain c' f1 where u1: "PEP_UPDATE ?c s (freq_max m) ps = (c', f1)" by (cases "PEP_UPDATE ?c s (freq_max m) ps")
  obtain o' f2 where u2: "PEP_UPDATE ?o s (freq_max m) ps = (o', f2)" by (cases "PEP_UPDATE ?o s (freq_max m) ps")
  have "freq_max (snd (model_encode m ps s)) = f1 \<or> freq_max (snd (model_encode m ps s)) = f2"
    by (simp add: model_encode_def Let_def u1 u2)
  with PEP_UPDATE_freq_max [OF u1] PEP_UPDATE_freq_max [OF u2] show ?thesis by auto
qed

lemma decode_from_context_freq_max:
  "decode_from_context ac c F ps = Some (r, ac', c', F')
     \<Longrightarrow> (F' = F \<or> F' = F + of_nat ((256 - unat ps) div 2)) \<and> (r = None \<longrightarrow> F' = F)"
  by (auto simp: decode_from_context_def Let_def
           split: if_splits option.splits prod.splits dest: PEP_UPDATE_freq_max)

lemma decode_symbol_freq_max:
  assumes "decode_symbol ps ac m = Some (s, ac', m')"
  shows "freq_max m' = freq_max m \<or> freq_max m' = freq_max m + of_nat ((256 - unat ps) div 2)"
  using assms
  by (auto simp: decode_symbol_def Let_def
           split: if_splits option.splits prod.splits
           dest!: decode_from_context_freq_max PEP_UPDATE_freq_max)

lemma c5_wrap:
  "PEP_UPDATE \<lparr>ctx_freq = 16382 # replicate 255 0 @ [1], ctx_sum = 16383\<rparr> 0 65533 1
     = (\<lparr>ctx_freq = 8192 # replicate 255 0 @ [1], ctx_sum = 8193\<rparr>, 124)"
  by code_simp

lemma c5_rescale:
  "PEP_UPDATE \<lparr>ctx_freq = 127 # replicate 255 0 @ [1], ctx_sum = 128\<rparr> 0 128 2
     = (\<lparr>ctx_freq = 65 # replicate 255 0 @ [1], ctx_sum = 66\<rparr>, 255)"
  by code_simp

text \<open>
  Claim C5, as stated, fails in its last part. \<open>freq_max\<close> is a \<open>uint16_t\<close>: with
  a palette of one color it grows by 127 at each rescale, and the rescale at 65533 takes
  it to 124. (A one-color image of 4096 by 4096 pixels is one run of the symbol 0 in
  context 0 and reaches this state of the context, with \<open>freq[0] = 16382\<close> and
  \<open>sum = 16383\<close>, at its 516th rescale.)
\<close>

theorem C5_counterexample:
  "PEP_UPDATE \<lparr>ctx_freq = 16382 # replicate 255 0 @ [1], ctx_sum = 16383\<rparr> 0 65533 1
     = (\<lparr>ctx_freq = 8192 # replicate 255 0 @ [1], ctx_sum = 8193\<rparr>, 124) \<and>
   (124 :: u16) < 65533"
  using c5_wrap by simp

text \<open>
  Claim C5, amended. \<open>PEP_UPDATE(ctx, s)\<close> adds 2 to \<open>ctx.freq[s]\<close> (16-bit) and to
  \<open>ctx.sum\<close>; then, if and only if \<open>ctx.freq[s] >= F\<close> or \<open>ctx.sum >= 2^14\<close>, it
  adds \<open>(256 - palette_size) / 2\<close> to the threshold \<open>F\<close> in 16-bit arithmetic,
  replaces every non-zero \<open>ctx.freq[i]\<close> by \<open>(ctx.freq[i] + 1) / 2\<close> while zero slots
  stay zero, and sets \<open>ctx.sum\<close> to the sum of the new frequencies. \<open>F\<close> is one
  variable of the model state of an encode or decode operation and starts at 128; no
  update, and no encode or decode step, decreases it as long as
  \<open>F + (256 - palette_size) / 2\<close> stays below \<open>2^16\<close>.
\<close>

theorem C5_update_contract:
  assumes "length (ctx_freq ctx) = 257" and "symbol < 257"
    and "PEP_UPDATE ctx symbol F psize = (ctx', F')"
  shows "(if ctx_freq ctx ! symbol + 2 \<ge> F \<or> unat (ctx_sum ctx + 2) \<ge> 2 ^ 14
          then F' = F + of_nat ((256 - unat psize) div 2) \<and>
               length (ctx_freq ctx') = 257 \<and>
               (\<forall>i < 257. unat (ctx_freq ctx' ! i) =
                  (let v = unat (if i = symbol then ctx_freq ctx ! i + 2 else ctx_freq ctx ! i)
                   in if v = 0 then 0 else (v + 1) div 2)) \<and>
               unat (ctx_sum ctx') = sum_list (map unat (ctx_freq ctx'))
          else F' = F \<and>
               ctx_freq ctx' = (ctx_freq ctx)[symbol := ctx_freq ctx ! symbol + 2] \<and>
               ctx_sum ctx' = ctx_sum ctx + 2) \<and>
         freq_max init_model = 128 \<and> enc_model init_encoder = init_model \<and>
         (unat F + (256 - unat psize) div 2 < 2 ^ 16 \<longrightarrow> F \<le> F') \<and>
         (unat (freq_max m) + (256 - unat psize) div 2 < 2 ^ 16 \<longrightarrow>
            freq_max m \<le> freq_max (snd (model_encode m psize k))) \<and>
         (unat (freq_max m) + (256 - unat psize) div 2 < 2 ^ 16 \<and>
          decode_symbol psize ac m = Some (k', ac', m') \<longrightarrow> freq_max m \<le> freq_max m')"
proof -
  have init: "freq_max init_model = 128" "enc_model init_encoder = init_model"
    by (simp_all add: init_model_def init_encoder_def PEP_FREQ_MAX_def)
  have up: "unat F + (256 - unat psize) div 2 < 2 ^ 16 \<longrightarrow> F \<le> F'"
    using freq_max_step_le [OF PEP_UPDATE_freq_max [OF assms(3)]] by blast
  have enc: "unat (freq_max m) + (256 - unat psize) div 2 < 2 ^ 16 \<longrightarrow>
            freq_max m \<le> freq_max (snd (model_encode m psize k))"
    using freq_max_step_le [OF model_encode_freq_max] by blast
  have dec: "unat (freq_max m) + (256 - unat psize) div 2 < 2 ^ 16 \<and>
          decode_symbol psize ac m = Some (k', ac', m') \<longrightarrow> freq_max m \<le> freq_max m'"
    using freq_max_step_le [OF decode_symbol_freq_max] by blast
  from update_contract [OF assms] init up enc dec show ?thesis
    by (simp only: simp_thms)
qed

text \<open>
  The amended claim at a context whose slot 0 stands at 127 under the threshold 128,
  with two colors: the update rescales, and the threshold grows to 255.
\<close>

theorem C5_update_contract_witness:
  "PEP_UPDATE \<lparr>ctx_freq = 127 # replicate 255 0 @ [1], ctx_sum = 128\<rparr> 0 128 2
     = (\<lparr>ctx_freq = 65 # replicate 255 0 @ [1], ctx_sum = 66\<rparr>, 255) \<and>
   (255 :: u16) = 128 + of_nat ((256 - unat (2 :: u8)) div 2) \<and>
   (128 :: u16) \<le> 255 \<and>
   unat (ctx_sum \<lparr>ctx_freq = 65 # replicate 255 0 @ [1], ctx_sum = 66\<rparr>)
     = sum_list (map unat (ctx_freq \<lparr>ctx_freq = 65 # replicate 255 0 @ [1], ctx_sum = 66\<rparr>))"
proof -
  have l: "length (ctx_freq \<lparr>ctx_freq = 127 # replicate 255 0 @ [1], ctx_sum = 128\<rparr>) = 257"
    by simp
  have s: "(0 :: nat) < 257" by simp
  have c: "ctx_freq \<lparr>ctx_freq = 127 # replicate 255 0 @ [1], ctx_sum = 128\<rparr> ! 0 + 2 \<ge> (128 :: u16)
           \<or> unat (ctx_sum \<lparr>ctx_freq = 127 # replicate 255 0 @ [1], ctx_sum = 128\<rparr> + 2) \<ge> 2 ^ 14"
    by simp
  have n: "unat (128 :: u16) + (256 - unat (2 :: u8)) div 2 < 2 ^ 16" by simp
  note t = C5_update_contract [OF l s c5_rescale]
  from t [THEN conjunct1] c
  have 1: "(255 :: u16) = 128 + of_nat ((256 - unat (2 :: u8)) div 2)"
    and 2: "unat (ctx_sum \<lparr>ctx_freq = 65 # replicate 255 0 @ [1], ctx_sum = 66\<rparr>)
     = sum_list (map unat (ctx_freq \<lparr>ctx_freq = 65 # replicate 255 0 @ [1], ctx_sum = 66\<rparr>))"
    by (simp_all only: if_True)
  from t [THEN conjunct2, THEN conjunct2, THEN conjunct2, THEN conjunct1] n
  have 3: "(128 :: u16) \<le> 255" by blast
  from c5_rescale 1 2 3 show ?thesis by blast
qed

section \<open>The totals presented to the coder\<close>

lemma run_model_append: "run_model ps m (xs @ ys) = run_model ps (run_model ps m xs) ys"
  by (simp add: run_model_def)

lemma run_model_Cons: "run_model ps m (x # xs) = run_model ps (snd (model_encode m ps x)) xs"
  by (simp add: run_model_def)

lemma run_model_Nil: "run_model ps m [] = m"
  by (simp add: run_model_def)

lemma presented_totals_append:
  "presented_totals ps m (xs @ ys)
     = presented_totals ps m xs @ presented_totals ps (run_model ps m xs) ys"
  by (induction xs arbitrary: m) (simp_all add: run_model_Cons run_model_Nil)

lemma context_index_lt: "context_index m < 256"
  by (simp add: context_index_def PEP_CONTEXTS_MAX_def)

lemma next_context_index:
  assumes "s < 256"
  shows "unat (next_context_id cid s) mod 256 = s"
proof -
  have s: "unat (of_nat s :: u64) = s"
    using assms by (simp add: unat_of_nat)
  have "take_bit 8 (unat (push_bit 8 cid :: u64)) = 0"
    by (simp add: unsigned_push_bit_eq take_bit_push_bit)
  moreover have "take_bit 8 s = s"
    using assms by (simp add: take_bit_nat_eq_self)
  ultimately have "take_bit 8 (unat (next_context_id cid s)) = s"
    by (simp add: next_context_id_def unsigned_or_eq take_bit_or s)
  then show ?thesis
    by (simp add: take_bit_eq_mod)
qed

lemma PEP_UPDATE_length:
  "length (ctx_freq (fst (PEP_UPDATE c s F ps))) = length (ctx_freq c)"
  by (simp add: PEP_UPDATE_def Let_def rescale_def)

lemma PEP_UPDATE_255: "snd (PEP_UPDATE c s F 255) = F"
  by (simp add: PEP_UPDATE_def Let_def PEP_FREQ_END_def)

lemma PEP_UPDATE_quiet:
  assumes "s < length (ctx_freq c)"
    and "unat (ctx_freq c ! s) + 2 < unat F" and "unat (ctx_sum c) + 2 < 2 ^ 14"
  shows "fst (PEP_UPDATE c s F ps)
           = \<lparr>ctx_freq = (ctx_freq c)[s := ctx_freq c ! s + 2], ctx_sum = ctx_sum c + 2\<rparr>"
proof -
  have b: "unat F < 2 ^ 16" using unsigned_less [of F] by simp
  with assms(2) have f: "unat (ctx_freq c ! s + 2) = unat (ctx_freq c ! s) + 2"
    by (simp add: unat_word_ariths)
  from assms(3) have g: "unat (ctx_sum c + 2) = unat (ctx_sum c) + 2"
    by (simp add: unat_word_ariths)
  have "\<not> needs_rescale \<lparr>ctx_freq = (ctx_freq c)[s := ctx_freq c ! s + 2],
                            ctx_sum = ctx_sum c + 2\<rparr> s F"
    using assms f g
    by (simp add: needs_rescale_def word_le_nat_alt PEP_PROB_MAX_VALUE_def)
  then show ?thesis by (simp add: PEP_UPDATE_def Let_def)
qed

lemma model_encode_index:
  "s < 256 \<Longrightarrow> context_index (snd (model_encode m ps s)) = s"
  by (simp add: model_encode_def Let_def case_prod_beta context_index_def
        next_context_index PEP_CONTEXTS_MAX_def)

lemma model_encode_freq_max_255:
  "freq_max (snd (model_encode m 255 s)) = freq_max m"
  by (simp add: model_encode_def Let_def case_prod_beta PEP_UPDATE_255)

lemma wf_model_nth:
  "wf_model m \<Longrightarrow> i < 257 \<Longrightarrow> length (ctx_freq (contexts m ! i)) = 257"
  by (simp add: wf_model_def list_all_length)

lemma model_encode_wf:
  assumes "wf_model m" and "s < 256"
  shows "wf_model (snd (model_encode m ps s))"
proof -
  have ci: "context_index m < 257" using context_index_lt [of m] by simp
  note l = wf_model_nth [OF assms(1)]
  have len: "length (contexts m) = 257" using assms(1) by (simp add: wf_model_def)
  have all: "\<And>n. n < 257 \<Longrightarrow> length (ctx_freq (contexts m ! n)) = 257"
    by (rule l)
  show ?thesis
    using assms(2) ci len all
    by (auto simp: model_encode_def Let_def case_prod_beta wf_model_def list_all_length
          nth_list_update PEP_UPDATE_length PEP_CONTEXTS_MAX_def PEP_FREQ_END_def)
qed

lemma model_encode_other:
  assumes "wf_model m" and "context_index m \<noteq> 0"
  shows "contexts (snd (model_encode m ps s)) ! 0 = contexts m ! 0"
  using assms
  by (simp add: model_encode_def Let_def case_prod_beta PEP_CONTEXTS_MAX_def)

lemma model_encode_known0:
  assumes "wf_model m" and "context_index m = 0"
    and "ctx_sum (contexts m ! 0) \<noteq> 0" and "ctx_freq (contexts m ! 0) ! s \<noteq> 0"
  shows "contexts (snd (model_encode m ps s)) ! 0
           = fst (PEP_UPDATE (contexts m ! 0) s (freq_max m) ps)"
    and "map prob_scale (fst (model_encode m ps s)) = [ctx_sum (contexts m ! 0)]"
  using assms
  by (simp_all add: model_encode_def Let_def case_prod_beta wf_model_def
        pep_get_prob_from_ctx_def)

lemma model_encode_escape0:
  assumes "wf_model m" and "context_index m = 0"
    and "ctx_sum (contexts m ! 0) \<noteq> 0" and "ctx_freq (contexts m ! 0) ! s = 0"
  shows "contexts (snd (model_encode m ps s)) ! 0
           = \<lparr>ctx_freq = ((ctx_freq (contexts m ! 0))
                             [256 := ctx_freq (contexts m ! 0) ! 256 + 1])[s := 1],
              ctx_sum = ctx_sum (contexts m ! 0) + 1 + 1\<rparr>"
  using assms
  by (simp add: model_encode_def Let_def case_prod_beta wf_model_def
        PEP_CONTEXTS_MAX_def PEP_FREQ_END_def)

lemma model_encode_virgin0:
  assumes "wf_model m" and "context_index m = 0" and "ctx_sum (contexts m ! 0) = 0"
  shows "contexts (snd (model_encode m ps s)) ! 0
           = \<lparr>ctx_freq = ((ctx_freq (contexts m ! 0))[256 := 1])[s := 1], ctx_sum = 1 + 1\<rparr>"
  using assms
  by (simp add: model_encode_def Let_def case_prod_beta wf_model_def
        PEP_CONTEXTS_MAX_def PEP_FREQ_END_def)

lemma c4_mid_inv: "c4_mid m x j S \<Longrightarrow> c4_inv m x S"
  by (simp add: c4_mid_def c4_inv_def)

text \<open>The symbol 0 in a context other than context 0 leads back to context 0.\<close>

lemma c4_return:
  assumes "wf_model m" and "context_index m \<noteq> 0"
  shows "wf_model (snd (model_encode m 255 0))"
    and "freq_max (snd (model_encode m 255 0)) = freq_max m"
    and "context_index (snd (model_encode m 255 0)) = 0"
    and "contexts (snd (model_encode m 255 0)) ! 0 = contexts m ! 0"
  using assms
  by (simp_all add: model_encode_wf model_encode_freq_max_255 model_encode_index
        model_encode_other)

lemma c4_escape_pair:
  assumes inv: "c4_inv m k S" and x: "k < x" "x < 256" and S: "0 < S" "S + 2 < 2 ^ 32"
  shows "c4_mid (run_model 255 m [x, 0]) x 1 (S + 2)"
proof -
  let ?c0 = "contexts m ! 0"
  let ?m1 = "snd (model_encode m 255 x)"
  from inv have wf: "wf_model m" and F: "freq_max m = 128" and ci: "context_index m = 0"
    and sm: "unat (ctx_sum ?c0) = S" and f0: "ctx_freq ?c0 ! 0 = 1"
    and z: "\<And>y. k < y \<Longrightarrow> y < 256 \<Longrightarrow> ctx_freq ?c0 ! y = 0"
    by (simp_all add: c4_inv_def)
  have len: "length (ctx_freq ?c0) = 257" by (rule wf_model_nth [OF wf]) simp
  from sm S(1) have nz: "ctx_sum ?c0 \<noteq> 0" by (auto simp: unat_gt_0 [symmetric])
  from z x have fx: "ctx_freq ?c0 ! x = 0" by simp
  have c1: "contexts ?m1 ! 0
              = \<lparr>ctx_freq = ((ctx_freq ?c0)[256 := ctx_freq ?c0 ! 256 + 1])[x := 1],
                 ctx_sum = ctx_sum ?c0 + 1 + 1\<rparr>"
    by (rule model_encode_escape0 [OF wf ci nz fx])
  have wf1: "wf_model ?m1" by (rule model_encode_wf [OF wf x(2)])
  have F1: "freq_max ?m1 = 128" by (simp add: model_encode_freq_max_255 F)
  have ci1: "context_index ?m1 \<noteq> 0"
    using x by (simp add: model_encode_index)
  have sm1: "unat (ctx_sum ?c0 + 1 + 1) = S + 2"
    using sm S(2) by (simp add: unat_word_ariths)
  let ?m2 = "snd (model_encode ?m1 255 0)"
  have r: "run_model 255 m [x, 0] = ?m2" by (simp add: run_model_def)
  note ret = c4_return [OF wf1 ci1]
  show ?thesis
    unfolding r c4_mid_def ret(4) c1
    using ret(1) ret(2) ret(3) F1 x len f0 z sm1
    by (simp add: nth_list_update)
qed

lemma c4_known_pair:
  assumes mid: "c4_mid m x j S" and x: "0 < x" "x < 256"
    and j: "j < 64" and S: "0 < S" "S + 2 < 2 ^ 14"
  shows "c4_mid (run_model 255 m [x, 0]) x (Suc j) (S + 2)"
proof -
  let ?c0 = "contexts m ! 0"
  let ?m1 = "snd (model_encode m 255 x)"
  from mid have wf: "wf_model m" and F: "freq_max m = 128" and ci: "context_index m = 0"
    and sm: "unat (ctx_sum ?c0) = S" and f0: "ctx_freq ?c0 ! 0 = 1"
    and fx: "unat (ctx_freq ?c0 ! x) + 1 = 2 * j"
    and z: "\<And>y. x < y \<Longrightarrow> y < 256 \<Longrightarrow> ctx_freq ?c0 ! y = 0"
    by (simp_all add: c4_mid_def)
  have len: "length (ctx_freq ?c0) = 257" by (rule wf_model_nth [OF wf]) simp
  from fx have jpos: "0 < j" by (cases j) simp_all
  from fx jpos have ux: "0 < unat (ctx_freq ?c0 ! x)" by arith
  then have fnz: "ctx_freq ?c0 ! x \<noteq> 0" by (simp add: unat_gt_0)
  from sm S(1) have snz: "ctx_sum ?c0 \<noteq> 0" by (auto simp: unat_gt_0 [symmetric])
  have xl: "x < length (ctx_freq ?c0)" using x len by simp
  have q1: "unat (ctx_freq ?c0 ! x) + 2 < unat (128 :: u16)" using fx j by simp
  have q2: "unat (ctx_sum ?c0) + 2 < 2 ^ 14" using sm S(2) by simp
  have c1: "contexts ?m1 ! 0
              = \<lparr>ctx_freq = (ctx_freq ?c0)[x := ctx_freq ?c0 ! x + 2],
                 ctx_sum = ctx_sum ?c0 + 2\<rparr>"
    unfolding model_encode_known0(1) [OF wf ci snz fnz] F
    by (rule PEP_UPDATE_quiet [OF xl q1 q2])
  have wf1: "wf_model ?m1" by (rule model_encode_wf [OF wf x(2)])
  have F1: "freq_max ?m1 = 128" by (simp add: model_encode_freq_max_255 F)
  have ci1: "context_index ?m1 \<noteq> 0"
    using x by (simp add: model_encode_index)
  have sm1: "unat (ctx_sum ?c0 + 2) = S + 2"
    using sm S(2) by (simp add: unat_word_ariths)
  have fx1: "unat (ctx_freq ?c0 ! x + 2) + 1 = 2 * Suc j"
    using fx j q1 by (simp add: unat_word_ariths)
  let ?m2 = "snd (model_encode ?m1 255 0)"
  have r: "run_model 255 m [x, 0] = ?m2" by (simp add: run_model_def)
  note ret = c4_return [OF wf1 ci1]
  show ?thesis
    unfolding r c4_mid_def ret(4) c1
    using ret(1) ret(2) ret(3) F1 x len f0 z sm1 fx1
    by (simp add: nth_list_update)
qed

lemma c4_block_Suc: "c4_block x (Suc n) = c4_block x n @ [x, 0]"
  unfolding c4_block_def by (induction n) simp_all

lemma c4_block_mid:
  assumes "c4_inv m k S" and "x = Suc k" and "x < 256" and "0 < S"
    and "0 < n" and "n \<le> 64" and "S + 2 * n < 2 ^ 14"
  shows "c4_mid (run_model 255 m (c4_block x n)) x n (S + 2 * n)"
  using assms(5-7)
proof (induction n)
  case 0
  then show ?case by simp
next
  case (Suc n)
  show ?case
  proof (cases "n = 0")
    case True
    have "c4_mid (run_model 255 m [x, 0]) x 1 (S + 2)"
      by (rule c4_escape_pair [OF assms(1)]) (use assms Suc.prems in simp_all)
    with True show ?thesis by (simp add: c4_block_def)
  next
    case False
    with Suc have ih: "c4_mid (run_model 255 m (c4_block x n)) x n (S + 2 * n)" by simp
    have "c4_mid (run_model 255 (run_model 255 m (c4_block x n)) [x, 0]) x (Suc n) (S + 2 * n + 2)"
      by (rule c4_known_pair [OF ih]) (use assms Suc.prems in simp_all)
    then show ?thesis by (simp add: c4_block_Suc run_model_append)
  qed
qed

lemma c4_block_inv:
  assumes "c4_inv m k S" and "x = Suc k" and "x < 256" and "0 < S"
    and "0 < n" and "n \<le> 64" and "S + 2 * n < 2 ^ 14"
  shows "c4_inv (run_model 255 m (c4_block x n)) x (S + 2 * n)"
  by (rule c4_mid_inv) (rule c4_block_mid [OF assms])

lemma init_model_wf: "wf_model init_model"
  by (simp add: wf_model_def init_model_def PEP_CONTEXTS_MAX_def PEP_FREQ_N_def
        list_all_length nth_append)

lemma init_model_context0:
  "contexts init_model ! 0 = \<lparr>ctx_freq = replicate 257 0, ctx_sum = 0\<rparr>"
  by (simp add: init_model_def PEP_CONTEXTS_MAX_def PEP_FREQ_N_def nth_append)

lemma init_model_index: "context_index init_model = 0"
  by (simp add: context_index_def init_model_def)

lemma c4_first:
  "c4_inv (run_model 255 init_model [0]) 0 2"
proof -
  let ?m1 = "snd (model_encode init_model 255 0)"
  have v: "ctx_sum (contexts init_model ! 0) = 0" by (simp add: init_model_context0)
  have c: "contexts ?m1 ! 0 = \<lparr>ctx_freq = ((replicate 257 0)[256 := 1])[0 := 1], ctx_sum = 1 + 1\<rparr>"
    using model_encode_virgin0 [OF init_model_wf init_model_index v, of 255 0]
    by (simp add: init_model_context0)
  have "wf_model ?m1" by (rule model_encode_wf [OF init_model_wf]) simp
  moreover have "freq_max ?m1 = 128"
    by (simp add: model_encode_freq_max_255) (simp add: init_model_def PEP_FREQ_MAX_def)
  moreover have "context_index ?m1 = 0" by (simp add: model_encode_index)
  ultimately show ?thesis
    by (simp add: c4_inv_def run_model_def c nth_list_update)
qed

lemma c4_blocks_Suc: "c4_blocks (Suc i) = c4_blocks i @ c4_block (Suc i) 64"
  by (simp add: c4_blocks_def)

lemma c4_after_blocks:
  "i \<le> 127 \<Longrightarrow> c4_inv (run_model 255 init_model (0 # c4_blocks i)) i (2 + 128 * i)"
proof (induction i)
  case 0
  with c4_first show ?case by (simp add: c4_blocks_def)
next
  case (Suc i)
  then have ih: "c4_inv (run_model 255 init_model (0 # c4_blocks i)) i (2 + 128 * i)" by simp
  have "c4_inv (run_model 255 (run_model 255 init_model (0 # c4_blocks i)) (c4_block (Suc i) 64))
          (Suc i) (2 + 128 * i + 2 * 64)"
    by (rule c4_block_inv [OF ih]) (use Suc.prems in simp_all)
  then show ?case
    by (simp add: c4_blocks_Suc run_model_append [symmetric])
qed

lemma c4_before_last:
  "c4_inv (run_model 255 init_model (0 # c4_blocks 127 @ c4_block 128 62 @ [129, 0, 130, 0]))
     130 16386"
proof -
  let ?a = "run_model 255 init_model (0 # c4_blocks 127)"
  have a: "c4_inv ?a 127 16258" using c4_after_blocks [of 127] by simp
  let ?b = "run_model 255 ?a (c4_block 128 62)"
  have "c4_inv ?b 128 (16258 + 2 * 62)"
    by (rule c4_block_inv [OF a]) simp_all
  then have b: "c4_inv ?b 128 16382" by simp
  let ?c = "run_model 255 ?b [129, 0]"
  have "c4_mid ?c 129 1 (16382 + 2)"
    by (rule c4_escape_pair [OF b]) simp_all
  then have c: "c4_inv ?c 129 16384" by (auto dest: c4_mid_inv)
  let ?d = "run_model 255 ?c [130, 0]"
  have "c4_mid ?d 130 1 (16384 + 2)"
    by (rule c4_escape_pair [OF c]) simp_all
  then have d: "c4_inv ?d 130 16386" by (auto dest: c4_mid_inv)
  have "?d = run_model 255 init_model (0 # c4_blocks 127 @ c4_block 128 62 @ [129, 0, 130, 0])"
    by (simp add: run_model_def)
  with d show ?thesis by simp
qed

text \<open>
  Claim C4 fails on the code. With a palette of 255 colors, the packed symbols
  \<open>c4_symbols\<close> bring the sum of context 0 to 16382 through updates that never reach a
  rescale test with a sum of \<open>2^14\<close>; two escapes then add 2 each outside
  \<open>PEP_UPDATE\<close>, and the last symbol is encoded from context 0 with the total 16386.
\<close>

theorem C4_total_exceeds:
  "last (presented_totals 255 init_model c4_symbols) = 16386 \<and>
   2 ^ 14 < unat (16386 :: u32)"
proof -
  let ?pre = "0 # c4_blocks 127 @ c4_block 128 62 @ [129, 0, 130, 0]"
  let ?m = "run_model 255 init_model ?pre"
  from c4_before_last have wf: "wf_model ?m" and ci: "context_index ?m = 0"
    and sm: "unat (ctx_sum (contexts ?m ! 0)) = 16386"
    and f0: "ctx_freq (contexts ?m ! 0) ! 0 = 1"
    by (simp_all add: c4_inv_def)
  from sm have "(of_nat (unat (ctx_sum (contexts ?m ! 0))) :: u32) = of_nat 16386"
    by (simp only:)
  then have s: "ctx_sum (contexts ?m ! 0) = 16386" by simp
  then have snz: "ctx_sum (contexts ?m ! 0) \<noteq> 0" by simp
  from f0 have fnz: "ctx_freq (contexts ?m ! 0) ! 0 \<noteq> 0" by simp
  have t: "presented_totals 255 ?m [0] = [16386]"
    using model_encode_known0(2) [OF wf ci snz fnz, of 255] s by simp
  have c: "c4_symbols = ?pre @ [0]" by (simp add: c4_symbols_def)
  have "presented_totals 255 init_model (?pre @ [0])
      = presented_totals 255 init_model ?pre @ presented_totals 255 ?m [0]"
    by (rule presented_totals_append)
  then have "last (presented_totals 255 init_model c4_symbols) = 16386"
    unfolding c t by simp
  then show ?thesis by simp
qed

lemma c4_symbols_length: "length c4_symbols = 16386"
  by (simp add: c4_symbols_def c4_blocks_def c4_block_def length_concat comp_def
        sum_list_triv sum_list_replicate)

subsection \<open>The image behind the sequence\<close>

lemma sod_seen: "set ys \<subseteq> set xs \<Longrightarrow> scan_order_distinct (xs @ ys) = scan_order_distinct xs"
proof (induction ys rule: rev_induct)
  case Nil
  then show ?case by simp
next
  case (snoc y ys)
  then have "scan_order_distinct (xs @ ys) = scan_order_distinct xs" by simp
  moreover from snoc.prems have "y \<in> set (xs @ ys)" by auto
  ultimately show ?case
    using sod_snoc [of "xs @ ys" y] by simp
qed

lemma sod_fresh:
  "distinct ys \<Longrightarrow> set ys \<inter> set xs = {} \<Longrightarrow>
     scan_order_distinct (xs @ ys) = scan_order_distinct xs @ ys"
proof (induction ys rule: rev_induct)
  case Nil
  then show ?case by simp
next
  case (snoc y ys)
  then have "scan_order_distinct (xs @ ys) = scan_order_distinct xs @ ys" by simp
  moreover from snoc.prems have "y \<notin> set (xs @ ys)" by auto
  ultimately show ?case
    using sod_snoc [of "xs @ ys" y] by simp
qed

lemma sod_map:
  "inj_on f (set xs) \<Longrightarrow> scan_order_distinct (map f xs) = map f (scan_order_distinct xs)"
proof (induction xs rule: rev_induct)
  case Nil
  then show ?case by (simp add: scan_order_distinct_def)
next
  case (snoc x xs)
  then have ih: "scan_order_distinct (map f xs) = map f (scan_order_distinct xs)"
    by (simp add: inj_on_def)
  from snoc.prems have "f x \<in> f ` set xs \<longleftrightarrow> x \<in> set xs"
    by (auto simp: inj_on_def)
  with ih show ?case
    using sod_snoc [of "map f xs" "f x"] sod_snoc [of xs x] by simp
qed

lemma c4_block_head: "0 < n \<Longrightarrow> \<exists>r. c4_block x n = x # r \<and> set r \<subseteq> {x, 0}"
  by (cases n) (auto simp: c4_block_def)

lemma sod_block:
  assumes "x \<notin> set pre" "0 \<in> set pre" "0 < n"
  shows "scan_order_distinct (pre @ c4_block x n) = scan_order_distinct pre @ [x]"
proof -
  from c4_block_head [OF assms(3)] obtain r where r: "c4_block x n = x # r" "set r \<subseteq> {x, 0}"
    by blast
  have "scan_order_distinct ((pre @ [x]) @ r) = scan_order_distinct (pre @ [x])"
    by (rule sod_seen) (use r assms in auto)
  with assms(1) show ?thesis
    by (simp add: r sod_snoc)
qed

lemma sod_next_block:
  assumes "scan_order_distinct pre = [0..<n]" and "0 < n" and "0 < k"
  shows "scan_order_distinct (pre @ c4_block n k) = [0..<Suc n]"
proof -
  have "set pre = set (scan_order_distinct pre)" by simp
  also have "\<dots> = {0..<n}" by (simp only: assms(1) set_upt)
  finally have s: "set pre = {0..<n}" .
  have "scan_order_distinct (pre @ c4_block n k) = scan_order_distinct pre @ [n]"
    by (rule sod_block) (use s assms in auto)
  then show ?thesis by (simp add: assms(1))
qed

lemma sod_blocks:
  "scan_order_distinct (0 # c4_blocks i) = [0..<Suc i]"
proof (induction i)
  case 0
  show ?case by (simp add: c4_blocks_def scan_order_distinct_def)
next
  case (Suc i)
  have "scan_order_distinct ((0 # c4_blocks i) @ c4_block (Suc i) 64) = [0..<Suc (Suc i)]"
    by (rule sod_next_block [OF Suc]) simp_all
  then show ?case
    by (simp add: c4_blocks_Suc)
qed

lemma sod_c4_symbols:
  "scan_order_distinct (c4_symbols @ [131..<255]) = [0..<255]"
proof -
  let ?a = "0 # c4_blocks 127"
  have a: "scan_order_distinct ?a = [0..<Suc 127]" by (rule sod_blocks)
  let ?b = "?a @ c4_block (Suc 127) 62"
  have b: "scan_order_distinct ?b = [0..<Suc (Suc 127)]"
    by (rule sod_next_block [OF a]) simp_all
  let ?c = "?b @ c4_block (Suc (Suc 127)) 1"
  have c: "scan_order_distinct ?c = [0..<Suc (Suc (Suc 127))]"
    by (rule sod_next_block [OF b]) simp_all
  let ?d = "?c @ c4_block (Suc (Suc (Suc 127))) 1"
  have d: "scan_order_distinct ?d = [0..<Suc (Suc (Suc (Suc 127)))]"
    by (rule sod_next_block [OF c]) simp_all
  define D where "D = ?d @ [0]"
  have e: "scan_order_distinct D = [0..<131]"
  proof -
    have "scan_order_distinct (?d @ [0]) = scan_order_distinct ?d"
      by (rule sod_seen) simp
    then show ?thesis unfolding D_def d by simp
  qed
  have "set D = set (scan_order_distinct D)" by (simp only: sod_set)
  then have se: "set D = {0..<131}" unfolding e by simp
  have "distinct [131..<255::nat]" by simp
  moreover have "set [131..<255] \<inter> set D = {}" unfolding se by auto
  ultimately have "scan_order_distinct (D @ [131..<255]) = scan_order_distinct D @ [131..<255]"
    by (rule sod_fresh)
  also have "\<dots> = [0..<255]"
    unfolding e using upt_add_eq_append [of 0 131 124] by simp
  finally have f: "scan_order_distinct (D @ [131..<255]) = [0..<255]" .
  have "c4_symbols = D"
    by (simp add: c4_symbols_def c4_block_def D_def)
  with f show ?thesis by simp
qed

lemma c4_symbols_set: "set (c4_symbols @ [131..<255]) = {0..<255}"
proof -
  have "set (c4_symbols @ [131..<255]) = set (scan_order_distinct (c4_symbols @ [131..<255]))"
    by (simp only: sod_set)
  then show ?thesis unfolding sod_c4_symbols by simp
qed

lemma c4_palette:
  "palette_loop (replicate 256 0, 0) True 0 c4_pixels = (map of_nat [0..<255] @ [0], 255)"
proof -
  obtain pal psize where r: "palette_loop (replicate 256 0, 0) True 0 c4_pixels = (pal, psize)"
    by (cases "palette_loop (replicate 256 0, 0) True 0 c4_pixels")
  have inj: "inj_on (of_nat :: nat \<Rightarrow> u32) (set (c4_symbols @ [131..<255]))"
    unfolding c4_symbols_set by (auto simp: inj_on_def intro: of_nat_u32_inj)
  have d: "scan_order_distinct c4_pixels = map of_nat [0..<255]"
    unfolding c4_pixels_def sod_map [OF inj] sod_c4_symbols ..
  from palette_loop_spec [OF r]
  have tk: "take (unat psize) pal = map of_nat [0..<255]"
    and ps: "unat psize = 255"
    and dr: "drop (unat psize) pal = replicate (256 - unat psize) 0"
    unfolding palette_inv_def d by auto
  from ps have "(of_nat (unat psize) :: u8) = of_nat 255" by (simp only:)
  then have p: "psize = 255" by simp
  have "pal = take 255 pal @ drop 255 pal" by simp
  also have "\<dots> = map of_nat [0..<255] @ [0]"
    using tk dr unfolding ps by simp
  finally show ?thesis using r p by simp
qed

lemma c4_index:
  assumes "v < 255"
  shows "index_search (map of_nat [0..<255] @ [0]) 255 (of_nat v) 0 = v"
proof -
  let ?pal = "map of_nat [0..<255] @ [0 :: u32]"
  have dist: "distinct (take 255 ?pal)"
    using distinct_colors [of 255] by simp
  have mem: "(of_nat v :: u32) \<in> set (take 255 ?pal)" using assms by simp
  from index_search_hit [OF _ _ dist mem]
  have lt: "index_search ?pal 255 (of_nat v) 0 < 255"
    and at: "?pal ! index_search ?pal 255 (of_nat v) 0 = of_nat v" by simp_all
  from lt at have "(of_nat (index_search ?pal 255 (of_nat v) 0) :: u32) = of_nat v"
    by (simp add: nth_append)
  with lt assms show ?thesis by (intro of_nat_u32_inj) simp_all
qed

lemma bits_per_index_255: "bits_per_index 255 = 8"
  by (simp add: bits_per_index_def PEP_BITS_TO_FIT_def PEP_COUNT_LEADING_ZEROS_def bit_length.simps)

lemma indices_per_byte_255: "indices_per_byte 255 = 1"
  by (simp add: indices_per_byte_def bits_per_index_255)

lemma pack_pixel_single:
  assumes "enc_symbol st = 0" and "enc_indices_in_byte st = 0"
    and "index_search pal 255 px 0 < 256"
  shows "pack_pixel pal 255 st px
     = st\<lparr>enc_symbol := of_nat (index_search pal 255 px 0), enc_indices_in_byte := 1\<rparr>"
    and "unat (enc_symbol (pack_pixel pal 255 st px)) = index_search pal 255 px 0"
proof -
  from assms(3) have "take_bit 32 (index_search pal 255 px 0) = index_search pal 255 px 0"
    by (simp add: take_bit_nat_eq_self)
  then have u: "(ucast (of_nat (index_search pal 255 px 0) :: u32) :: u8) = of_nat (index_search pal 255 px 0)"
    by (simp add: unsigned_of_nat)
  show p: "pack_pixel pal 255 st px
     = st\<lparr>enc_symbol := of_nat (index_search pal 255 px 0), enc_indices_in_byte := 1\<rparr>"
    using assms(1,2) by (simp add: pack_pixel_def Let_def u)
  from assms(3) have "unat (of_nat (index_search pal 255 px 0) :: u8) = index_search pal 255 px 0"
    by (simp add: of_nat_inverse)
  with p show "unat (enc_symbol (pack_pixel pal 255 st px)) = index_search pal 255 px 0"
    by simp
qed

lemma encode_loop_model:
  assumes "encode_loop pal 255 st pixels = Some st'"
    and "enc_symbol st = 0" and "enc_indices_in_byte st = 0"
    and "\<forall>px \<in> set pixels. index_search pal 255 px 0 < 256"
  shows "enc_model st'
     = run_model 255 (enc_model st) (map (\<lambda>px. index_search pal 255 px 0) pixels)"
  using assms
proof (induction pixels arbitrary: st)
  case Nil
  then show ?case by (simp add: run_model_Nil)
next
  case (Cons px rest)
  let ?i = "index_search pal 255 px 0"
  let ?st1 = "pack_pixel pal 255 st px"
  from Cons.prems have lt: "?i < 256" by simp
  note pk = pack_pixel_single [OF Cons.prems(2,3) lt]
  have i1: "enc_indices_in_byte ?st1 = 1" by (simp add: pk(1))
  from Cons.prems(1) obtain st2 where e: "encode_symbol 255 ?st1 = Some st2"
    and l: "encode_loop pal 255 st2 rest = Some st'"
    by (simp add: Let_def i1 indices_per_byte_255 split: option.splits)
  from e have m2: "enc_model st2 = snd (model_encode (enc_model st) 255 ?i)"
    and s2: "enc_symbol st2 = 0" and n2: "enc_indices_in_byte st2 = 0"
    unfolding encode_symbol_def Let_def pk(2)
    by (auto simp: case_prod_beta pk(1) split: option.splits)
  from Cons.prems(4) have r: "\<forall>px \<in> set rest. index_search pal 255 px 0 < 256" by simp
  from Cons.IH [OF l s2 n2 r] show ?case
    by (simp add: run_model_Cons m2)
qed

lemma c4_image_symbols:
  assumes "set vs \<subseteq> {0..<255}"
    and "encode_loop (map of_nat [0..<255] @ [0]) 255 init_encoder (map of_nat vs) = Some st"
  shows "enc_model st = run_model 255 init_model vs"
proof -
  let ?pal = "map of_nat [0..<255] @ [0 :: u32]"
  have ix: "map (\<lambda>px. index_search ?pal 255 px 0) (map of_nat vs) = vs"
    using assms(1) by (simp add: map_idI c4_index subset_iff del: upt.simps)
  have lt: "\<forall>px \<in> set (map of_nat vs). index_search ?pal 255 px 0 < 256"
    using assms(1) by (auto simp: c4_index subset_iff simp del: upt.simps)
  from encode_loop_model [OF assms(2) _ _ lt]
  show ?thesis unfolding ix by (simp add: init_encoder_def)
qed

text \<open>
  The image behind \<open>c4_symbols\<close>: 130 by 127 pixels whose colors are the numbers of the
  sequence, followed by the colors 131 to 254. Its palette holds 255 colors in numeric
  order, so every pixel is one packed symbol, the number of its color. If the encoder
  gets through the first 16385 pixels, the model it carries then presents the total
  16386 for the next one.
\<close>

lemma c4_pixels_length: "length c4_pixels = 130 * 127"
  by (simp add: c4_pixels_def c4_symbols_length)

lemma c4_image_total:
  assumes "palette_loop (replicate 256 0, 0) True 0 c4_pixels = (pal, psize)"
    and "encode_loop pal psize init_encoder (take 16385 c4_pixels) = Some st"
  shows "psize = 255"
    and "map prob_scale
           (fst (model_encode (enc_model st) psize
                  (index_search pal (unat psize) (c4_pixels ! 16385) 0))) = [16386]"
proof -
  let ?pre = "0 # c4_blocks 127 @ c4_block 128 62 @ [129, 0, 130, 0]"
  let ?m = "run_model 255 init_model ?pre"
  from assms(1) have pal: "pal = map of_nat [0..<255] @ [0]" and ps: "psize = 255"
    by (simp_all add: c4_palette)
  show "psize = 255" by (rule ps)
  have c: "c4_symbols = ?pre @ [0]" by (simp add: c4_symbols_def)
  have len: "length ?pre = 16385" using c4_symbols_length unfolding c by simp
  define P :: "u32 list" where "P = map of_nat ?pre"
  have lenP: "length P = 16385" unfolding P_def using len by simp
  have cp: "c4_pixels = P @ of_nat 0 # map of_nat [131..<255]"
    unfolding c4_pixels_def c P_def by simp
  have "take 16385 c4_pixels = P"
    unfolding cp using lenP by simp
  then have tk: "take 16385 c4_pixels = map of_nat ?pre" unfolding P_def .
  have "c4_pixels ! length P = of_nat 0"
    unfolding cp by (rule nth_append_length)
  then have nth: "c4_pixels ! 16385 = of_nat 0" unfolding lenP .
  have "set ?pre \<subseteq> set (c4_symbols @ [131..<255])" unfolding c by auto
  then have sub: "set ?pre \<subseteq> {0..<255}" unfolding c4_symbols_set .
  from assms(2) have m: "enc_model st = ?m"
    unfolding pal ps tk by (rule c4_image_symbols [OF sub])
  from c4_before_last have wf: "wf_model ?m" and ci: "context_index ?m = 0"
    and sm: "unat (ctx_sum (contexts ?m ! 0)) = 16386"
    and f0: "ctx_freq (contexts ?m ! 0) ! 0 = 1"
    by (simp_all add: c4_inv_def)
  from sm have "(of_nat (unat (ctx_sum (contexts ?m ! 0))) :: u32) = of_nat 16386"
    by (simp only:)
  then have s: "ctx_sum (contexts ?m ! 0) = 16386" by simp
  then have snz: "ctx_sum (contexts ?m ! 0) \<noteq> 0" by simp
  from f0 have fnz: "ctx_freq (contexts ?m ! 0) ! 0 \<noteq> 0" by simp
  have ix: "index_search pal 255 (c4_pixels ! 16385) 0 = 0"
    unfolding pal nth using c4_index [of 0] by simp
  show "map prob_scale
           (fst (model_encode (enc_model st) psize
                  (index_search pal (unat psize) (c4_pixels ! 16385) 0))) = [16386]"
    unfolding m ps using model_encode_known0(2) [OF wf ci snz fnz, of 255] s by (simp add: ix)
qed

section \<open>Container round trip\<close>




















lemma put_color8_length: "length (put_color8 rgb c) = (if rgb then 3 else 4)"
  by (simp add: put_color8_def)















text \<open>
  The order of a black and white palette does not survive the container: the image
  whose palette is white, then black, comes back with black, then white.
\<close>

lemma bitmap_order_lost:
  "pep_compress (Ptr [0xFFFFFFFF, 0xFF000000]) 2 1 pep_rgba pep_8bit = Some c2_white_black \<and>
   pep_serialize (Ptr c2_white_black) = Some (Ptr [124, 1, 0, 4, 1, 254, 1, 254, 0], 8) \<and>
   map_option (\<lambda>q. take 2 (palette q))
     (pep_deserialize (Ptr [124, 1, 0, 4, 1, 254, 1, 254, 0])) = Some [0xFF000000, 0xFFFFFFFF]"
  by code_simp

lemma c2_black_white_compress:
  "pep_compress (Ptr [0xFF000000, 0xFFFFFFFF]) 2 1 pep_rgba pep_1bit = Some c2_black_white"
  by code_simp





end
